theory Spec2Isabelle
  imports Complex_Main "HOL-Library.AList"
begin

section \<open>The stream configuration\<close>

text \<open>
  The configuration object read by \<^verbatim>\<open>buildFfmpegArgs\<close> and \<^verbatim>\<open>spawnFfmpeg\<close> of
  \<^verbatim>\<open>src/ffmpeg-utils.js\<close>. A field that may be missing (\<^verbatim>\<open>undefined\<close> or \<^verbatim>\<open>null\<close>)
  is an option. Numbers are integers (seconds, minutes, kbps, a loop count) of the
  range in which JavaScript's arithmetic is exact and \<^verbatim>\<open>String(n)\<close> is the plain
  decimal numeral (below \<open>2^53\<close> in magnitude); \<^verbatim>\<open>frameRate\<close> is a number or the
  string \<^verbatim>\<open>'source'\<close>, \<^verbatim>\<open>bitrate\<close> a number or the string \<^verbatim>\<open>'auto'\<close>. The base URL
  \<^verbatim>\<open>rtmpUrl\<close> is always a string.
\<close>

datatype frame_rate = FrSource | FrNum int

datatype bit_rate = BrAuto | BrNum int

record config =
  loop :: "bool option"
  loopCount :: "int option"
  startTime :: "int option"
  endTime :: "int option"
  duration :: "int option"
  resolution :: "string option"
  aspectRatio :: "string option"
  frameRate :: "frame_rate option"
  bitrate :: "bit_rate option"
  rtmpUrl :: string
  streamKey :: "string option"

subsection \<open>JavaScript primitives used by the argument builder\<close>

definition digit_char :: "nat \<Rightarrow> char" where
  "digit_char d = ''0123456789'' ! d"

fun string_of_nat :: "nat \<Rightarrow> string" where
  "string_of_nat n =
     (if n < 10 then [digit_char n] else string_of_nat (n div 10) @ [digit_char (n mod 10)])"

declare string_of_nat.simps [simp del]

text \<open>\<^verbatim>\<open>String(n)\<close> on an integer.\<close>

definition String :: "int \<Rightarrow> string" where
  "String n = (if n < 0 then CHR ''-'' # string_of_nat (nat (- n)) else string_of_nat (nat n))"

text \<open>Truthiness of an optional boolean, number and string.\<close>

definition truthy_bool :: "bool option \<Rightarrow> bool" where
  "truthy_bool b = (case b of None \<Rightarrow> False | Some v \<Rightarrow> v)"

definition truthy_num :: "int option \<Rightarrow> bool" where
  "truthy_num n = (case n of None \<Rightarrow> False | Some v \<Rightarrow> v \<noteq> 0)"

definition truthy_str :: "string option \<Rightarrow> bool" where
  "truthy_str s = (case s of None \<Rightarrow> False | Some v \<Rightarrow> v \<noteq> [])"

text \<open>\<^verbatim>\<open>x > k\<close> where \<^verbatim>\<open>x\<close> may be missing: the comparison with \<^verbatim>\<open>undefined\<close> is false.\<close>

definition gt_num :: "int option \<Rightarrow> int \<Rightarrow> bool" where
  "gt_num x k = (case x of None \<Rightarrow> False | Some v \<Rightarrow> v > k)"

text \<open>\<^verbatim>\<open>filters.join(',')\<close>.\<close>

fun join_comma :: "string list \<Rightarrow> string" where
  "join_comma [] = []"
| "join_comma [x] = x"
| "join_comma (x # y # ys) = x @ '','' @ join_comma (y # ys)"

text \<open>\<^verbatim>\<open>s.replace(/\/$/, '')\<close>: one slash at the very end of the string is removed.\<close>

definition strip_trailing_slash :: "string \<Rightarrow> string" where
  "strip_trailing_slash s = (if s \<noteq> [] \<and> last s = CHR ''/'' then butlast s else s)"

section \<open>The argument builder\<close>

text \<open>
  \<^verbatim>\<open>buildFfmpegArgs(filePath, config)\<close> pushes onto a local array, section by section.
  Each section below is the list that section of the source pushes, in the source's
  order; the result is their concatenation.
\<close>

text \<open>Lines 24-28: the loop directive.\<close>

definition loopArgs :: "config \<Rightarrow> string list" where
  "loopArgs c =
     (if truthy_bool (loop c) \<or> loopCount c = Some (- 1) then [''-stream_loop'', ''-1'']
      else if gt_num (loopCount c) 1 then [''-stream_loop'', String (the (loopCount c) - 1)]
      else [])"

text \<open>Lines 31-33: the start offset.\<close>

definition trimStartArgs :: "config \<Rightarrow> string list" where
  "trimStartArgs c =
     (if truthy_num (startTime c) \<and> gt_num (startTime c) 0
      then [''-ss'', String (the (startTime c))] else [])"

text \<open>Lines 38-41: the input-side duration, only when not looping.\<close>

definition isLooping :: "config \<Rightarrow> bool" where
  "isLooping c \<longleftrightarrow> truthy_bool (loop c) \<or> loopCount c = Some (- 1) \<or> gt_num (loopCount c) 1"

definition trimDurationArgs :: "config \<Rightarrow> string list" where
  "trimDurationArgs c =
     (if \<not> isLooping c \<and> truthy_num (endTime c) \<and> startTime c \<noteq> None
         \<and> the (endTime c) > the (startTime c)
      then [''-t'', String (the (endTime c) - the (startTime c))] else [])"

text \<open>
  Lines 52-81: the video filters. The two tables are looked up by their own keys
  only; a name inherited from the prototype of a JavaScript object literal (such as
  \<^verbatim>\<open>'constructor'\<close>) is not a configuration value considered here.
\<close>

definition resMap :: "string \<Rightarrow> string option" where
  "resMap = map_of
     [(''1080p'', ''1920:1080''), (''720p'', ''1280:720''), (''480p'', ''854:480'')]"

definition ratioMap :: "string \<Rightarrow> string option" where
  "ratioMap = map_of
     [(''16:9'', ''16/9''), (''9:16'', ''9/16''), (''1:1'', ''1/1''), (''4:3'', ''4/3'')]"

definition scaleFilter :: "config \<Rightarrow> string list" where
  "scaleFilter c =
     (if truthy_str (resolution c) \<and> resolution c \<noteq> Some ''source''
      then (case resMap (the (resolution c)) of
              None \<Rightarrow> [] | Some v \<Rightarrow> [''scale='' @ v])
      else [])"

definition setdarFilter :: "config \<Rightarrow> string list" where
  "setdarFilter c =
     (if truthy_str (aspectRatio c) \<and> aspectRatio c \<noteq> Some ''source''
      then (case ratioMap (the (aspectRatio c)) of
              None \<Rightarrow> [] | Some v \<Rightarrow> [''setdar='' @ v])
      else [])"

definition filterArgs :: "config \<Rightarrow> string list" where
  "filterArgs c =
     (let filters = scaleFilter c @ setdarFilter c
      in if length filters > 0 then [''-vf'', join_comma filters] else [])"

text \<open>Lines 84-86: the frame rate.\<close>

definition frameRateArgs :: "config \<Rightarrow> string list" where
  "frameRateArgs c =
     (case frameRate c of
        Some (FrNum r) \<Rightarrow> (if r \<noteq> 0 then [''-r'', String r] else [])
      | _ \<Rightarrow> [])"

text \<open>Lines 89-97: the bitrate, with \<^verbatim>\<open>Math.round(bitrate * 2)\<close> for the buffer size.\<close>

definition bitrateArgs :: "config \<Rightarrow> string list" where
  "bitrateArgs c =
     (case bitrate c of
        Some (BrNum b) \<Rightarrow>
          (if b \<noteq> 0
           then [''-b:v'', String b @ ''k'', ''-maxrate'', String b @ ''k'',
                 ''-bufsize'', String (b * 2) @ ''k'']
           else [''-b:v'', ''4500k'', ''-maxrate'', ''4500k'', ''-bufsize'', ''9000k''])
      | _ \<Rightarrow> [''-b:v'', ''4500k'', ''-maxrate'', ''4500k'', ''-bufsize'', ''9000k''])"

text \<open>Lines 105-107: the output duration cap, minutes to seconds.\<close>

definition durationArgs :: "config \<Rightarrow> string list" where
  "durationArgs c =
     (if truthy_num (duration c) \<and> gt_num (duration c) 0
      then [''-t'', String (the (duration c) * 60)] else [])"

text \<open>Lines 112-114: the destination.\<close>

definition rtmpDest :: "config \<Rightarrow> string" where
  "rtmpDest c =
     (if truthy_str (streamKey c)
      then strip_trailing_slash (rtmpUrl c) @ ''/'' @ the (streamKey c)
      else rtmpUrl c)"

definition buildFfmpegArgs :: "string \<Rightarrow> config \<Rightarrow> string list" where
  "buildFfmpegArgs filePath c =
     [''-re''] @ loopArgs c @ trimStartArgs c @ trimDurationArgs c
     @ [''-i'', filePath]
     @ [''-c:v'', ''libx264'', ''-preset'', ''veryfast'', ''-tune'', ''zerolatency'']
     @ filterArgs c @ frameRateArgs c @ bitrateArgs c
     @ [''-c:a'', ''aac'', ''-b:a'', ''128k'', ''-ar'', ''44100'']
     @ durationArgs c
     @ [''-f'', ''flv'']
     @ [rtmpDest c]"

text \<open>
  The destination as the specification words it (section 4.1, item 7): the base URL
  with a trailing slash stripped, plus the key as a further path segment if one is
  configured. It is compared with \<open>rtmpDest\<close> below.
\<close>

definition claimed_destination :: "config \<Rightarrow> string" where
  "claimed_destination c =
     strip_trailing_slash (rtmpUrl c)
     @ (if truthy_str (streamKey c) then ''/'' @ the (streamKey c) else [])"

text \<open>The arguments in front of the input marker \<^verbatim>\<open>-i\<close>.\<close>

definition inputOptions :: "string list \<Rightarrow> string list" where
  "inputOptions args = takeWhile (\<lambda>a. a \<noteq> ''-i'') args"

text \<open>The input-side options the source pushes before \<^verbatim>\<open>-i\<close> (lines 21-41).\<close>

definition inputSide :: "config \<Rightarrow> string list" where
  "inputSide c = [''-re''] @ loopArgs c @ trimStartArgs c @ trimDurationArgs c"

section \<open>The progress parser\<close>

text \<open>
  \<^verbatim>\<open>output.match(/time=(\d{2}:\d{2}:\d{2})/)\<close>: the leftmost place of the chunk where
  \<^verbatim>\<open>time=\<close> is followed by two digits, a colon, two digits, a colon and two digits;
  the result is the captured group, or nothing.
\<close>

definition is_digit :: "char \<Rightarrow> bool" where
  "is_digit ch \<longleftrightarrow> ch \<in> set ''0123456789''"

definition time_at :: "string \<Rightarrow> bool" where
  "time_at s \<longleftrightarrow>
     length s \<ge> 13 \<and> take 5 s = ''time=''
     \<and> is_digit (s ! 5) \<and> is_digit (s ! 6) \<and> s ! 7 = CHR '':''
     \<and> is_digit (s ! 8) \<and> is_digit (s ! 9) \<and> s ! 10 = CHR '':''
     \<and> is_digit (s ! 11) \<and> is_digit (s ! 12)"

fun timeMatch :: "string \<Rightarrow> string option" where
  "timeMatch [] = None"
| "timeMatch (ch # cs) =
     (if time_at (ch # cs) then Some (take 8 (drop 5 (ch # cs))) else timeMatch cs)"

text \<open>The shape of what \<open>timeMatch\<close> returns: \<^verbatim>\<open>HH:MM:SS\<close>, all digits.\<close>

definition hms :: "string \<Rightarrow> bool" where
  "hms t \<longleftrightarrow>
     (\<exists>h1 h2 m1 m2 s1 s2.
        is_digit h1 \<and> is_digit h2 \<and> is_digit m1 \<and> is_digit m2 \<and> is_digit s1 \<and> is_digit s2
        \<and> t = [h1, h2, CHR '':'', m1, m2, CHR '':'', s1, s2])"

text \<open>\<^verbatim>\<open>s.split(':')\<close> and \<^verbatim>\<open>Number\<close> on a string of decimal digits.\<close>

fun split_colon :: "string \<Rightarrow> string list" where
  "split_colon [] = [[]]"
| "split_colon (ch # cs) =
     (if ch = CHR '':'' then [] # split_colon cs
      else (case split_colon cs of
              p # ps \<Rightarrow> (ch # p) # ps
            | [] \<Rightarrow> [[ch]]))"

definition digit_val :: "char \<Rightarrow> int" where
  "digit_val ch = int (length (takeWhile (\<lambda>d. d \<noteq> ch) ''0123456789''))"

definition Number :: "string \<Rightarrow> int" where
  "Number s = foldl (\<lambda>a ch. 10 * a + digit_val ch) 0 s"

text \<open>
  Lines 147-148: the elapsed seconds of a matched \<^verbatim>\<open>HH:MM:SS\<close>. The source applies
  this to a match of the pattern only, which has three parts of two digits each
  (lemma \<open>timeMatch_hms\<close>).
\<close>

definition elapsed :: "string \<Rightarrow> int" where
  "elapsed t =
     (let parts = map Number (split_colon t)
      in parts ! 0 * 3600 + parts ! 1 * 60 + parts ! 2)"

section \<open>The supervisor's state\<close>

datatype status = Running | Reconnecting | Stopped | Completed | Error

text \<open>
  \<^verbatim>\<open>stats.loopCount\<close> is the field \<open>stats_loopCount\<close> here, the name \<open>loopCount\<close> being
  the configuration's.
\<close>

record stats =
  time :: string
  stats_loopCount :: int

text \<open>
  A stream state is a JavaScript object: the registry, the handlers of a process and
  the callbacks of a timer all hold a reference to it. The objects live in a store
  (\<open>heap\<close>, indexed by reference); a process handle is an index into \<open>procs\<close>, a
  timer handle an index into \<open>timers\<close>.
\<close>

record streamState =
  process :: "nat option"
  status :: status
  startedAt :: nat
  reconnectAttempts :: int
  reconnectTimer :: "nat option"
  stats :: stats
  config :: config

datatype signal = SIGINT | SIGKILL

text \<open>
  A child process: the arguments it was spawned with, Node's \<^verbatim>\<open>killed\<close> flag, whether
  it has exited (its \<^verbatim>\<open>close\<close> event has been emitted), the signals delivered to it,
  the variables its handlers close over (the parameters of \<^verbatim>\<open>spawnFfmpeg\<close>), and the
  timers that the \<^verbatim>\<open>close\<close> listeners added by \<^verbatim>\<open>stopStream\<close> clear.
\<close>

record childProcess =
  spawnargs :: "string list"
  killed :: bool
  exited :: bool
  signals :: "signal list"
  cl_streamId :: string
  cl_filePath :: string
  cl_config :: config
  cl_state :: nat
  closeClears :: "nat list"

text \<open>
  A timer callback: the relaunch of lines 165-169 with the variables it closes over,
  or the forced kill of lines 224-230 with the stream state it closes over.
\<close>

datatype callback = Relaunch string string config nat | ForceKill nat

record timer =
  callback :: callback
  pending :: bool

text \<open>
  The world of the supervisor. The registry \<^verbatim>\<open>activeStreams\<close> is a JavaScript
  \<^verbatim>\<open>Map\<close>: an association list in insertion order, whose \<^verbatim>\<open>set\<close> on a key it has
  replaces the value in place (\<open>AList.update\<close>) and whose \<^verbatim>\<open>get\<close> is \<open>map_of\<close>.
  Objects, processes and timers are never freed; a new one gets the next index.
\<close>

record world =
  activeStreams :: "(string \<times> nat) list"
  heap :: "streamState list"
  procs :: "childProcess list"
  timers :: "timer list"

definition init_world :: world where
  "init_world = \<lparr>activeStreams = [], heap = [], procs = [], timers = []\<rparr>"

definition MAX_RECONNECT_ATTEMPTS :: int where
  "MAX_RECONNECT_ATTEMPTS = 10"

subsection \<open>Store, timers, signals\<close>

definition update_state :: "nat \<Rightarrow> (streamState \<Rightarrow> streamState) \<Rightarrow> world \<Rightarrow> world" where
  "update_state r f w = w\<lparr>heap := (heap w)[r := f (heap w ! r)]\<rparr>"

definition setTimeout :: "callback \<Rightarrow> world \<Rightarrow> nat \<times> world" where
  "setTimeout cb w =
     (length (timers w), w\<lparr>timers := timers w @ [\<lparr>callback = cb, pending = True\<rparr>]\<rparr>)"

definition clearTimeout :: "nat \<Rightarrow> world \<Rightarrow> world" where
  "clearTimeout t w = w\<lparr>timers := (timers w)[t := (timers w ! t)\<lparr>pending := False\<rparr>]\<rparr>"

text \<open>
  \<^verbatim>\<open>proc.kill(sig)\<close>: a process that has not exited receives the signal and its
  \<^verbatim>\<open>killed\<close> flag is set; on a process that has exited the call does nothing.
\<close>

definition kill :: "nat \<Rightarrow> signal \<Rightarrow> world \<Rightarrow> world" where
  "kill p sg w =
     (if p < length (procs w) \<and> \<not> exited (procs w ! p)
      then w\<lparr>procs := (procs w)[p := (procs w ! p)\<lparr>killed := True,
                                     signals := signals (procs w ! p) @ [sg]\<rparr>]\<rparr>
      else w)"

section \<open>The supervisor's operations\<close>

subsection \<open>spawnFfmpeg and the handlers it registers\<close>

text \<open>
  Lines 120-130. The launch always yields a process handle; a launch that fails is a
  process whose \<^verbatim>\<open>close\<close> event comes with a nonzero code (the \<^verbatim>\<open>error\<close> handler of
  lines 179-182 only logs).
\<close>

definition spawnFfmpeg :: "string \<Rightarrow> string \<Rightarrow> config \<Rightarrow> nat \<Rightarrow> world \<Rightarrow> world" where
  "spawnFfmpeg streamId filePath c r w =
     (let args = buildFfmpegArgs filePath c;
          proc = \<lparr>spawnargs = args, killed = False, exited = False, signals = [],
                  cl_streamId = streamId, cl_filePath = filePath, cl_config = c,
                  cl_state = r, closeClears = []\<rparr>;
          pid = length (procs w)
      in update_state r (\<lambda>s. s\<lparr>process := Some pid, status := Running\<rparr>)
           (w\<lparr>procs := procs w @ [proc]\<rparr>))"

text \<open>Lines 133-153: the \<^verbatim>\<open>data\<close> handler of the process's diagnostic stream.\<close>

definition progress :: "config \<Rightarrow> string \<Rightarrow> streamState \<Rightarrow> streamState" where
  "progress c t s =
     (let s1 = s\<lparr>stats := (stats s)\<lparr>time := t\<rparr>, reconnectAttempts := 0\<rparr>
      in if truthy_num (endTime c) \<and> startTime c \<noteq> None
         then (let clipDuration = the (endTime c) - the (startTime c)
               in if clipDuration > 0
                  then s1\<lparr>stats := (stats s1)\<lparr>stats_loopCount := elapsed t div clipDuration + 1\<rparr>\<rparr>
                  else s1)
         else s1)"

definition onData :: "nat \<Rightarrow> string \<Rightarrow> world \<Rightarrow> world" where
  "onData p output w =
     (case timeMatch output of
        None \<Rightarrow> w
      | Some t \<Rightarrow> update_state (cl_state (procs w ! p)) (progress (cl_config (procs w ! p)) t) w)"

text \<open>Lines 155-177: the \<^verbatim>\<open>close\<close> handler. The exit code is \<^verbatim>\<open>null\<close> (\<open>None\<close>) when a signal ended the process.\<close>

definition onClose :: "nat \<Rightarrow> int option \<Rightarrow> world \<Rightarrow> world" where
  "onClose p code w =
     (let streamId = cl_streamId (procs w ! p); filePath = cl_filePath (procs w ! p);
          c = cl_config (procs w ! p); r = cl_state (procs w ! p);
          s = heap w ! r
      in if status s = Running \<and> code \<noteq> Some 0
         then (if reconnectAttempts s < MAX_RECONNECT_ATTEMPTS
               then (let w1 = update_state r
                                (\<lambda>s. s\<lparr>reconnectAttempts := reconnectAttempts s + 1,
                                        status := Reconnecting\<rparr>) w;
                         (t, w2) = setTimeout (Relaunch streamId filePath c r) w1
                     in update_state r (\<lambda>s. s\<lparr>reconnectTimer := Some t\<rparr>) w2)
               else update_state r (\<lambda>s. s\<lparr>status := Error\<rparr>) w)
         else if status s = Running \<and> code = Some 0
         then update_state r (\<lambda>s. s\<lparr>status := Completed\<rparr>) w
         else w)"

text \<open>The body of a timer callback: lines 165-169 and lines 224-230.\<close>

fun runCallback :: "callback \<Rightarrow> world \<Rightarrow> world" where
  "runCallback (Relaunch streamId filePath c r) w =
     (if status (heap w ! r) = Reconnecting then spawnFfmpeg streamId filePath c r w else w)"
| "runCallback (ForceKill r) w =
     (case process (heap w ! r) of None \<Rightarrow> w | Some p \<Rightarrow> kill p SIGKILL w)"

subsection \<open>The exported operations\<close>

text \<open>Lines 185-203; \<open>now\<close> is the value of \<^verbatim>\<open>Date.now()\<close>.\<close>

definition startStream :: "string \<Rightarrow> string \<Rightarrow> config \<Rightarrow> nat \<Rightarrow> world \<Rightarrow> string \<times> world" where
  "startStream streamId filePath c now w =
     (let streamState = \<lparr>process = None, status = Running, startedAt = now,
                         reconnectAttempts = 0, reconnectTimer = None,
                         stats = \<lparr>time = ''00:00:00'', stats_loopCount = 1\<rparr>,
                         config = c\<rparr>;
          r = length (heap w);
          w1 = w\<lparr>heap := heap w @ [streamState],
                 activeStreams := AList.update streamId r (activeStreams w)\<rparr>
      in (streamId, spawnFfmpeg streamId filePath c r w1))"

text \<open>Lines 213-217: cancel any pending reconnect.\<close>

definition cancelReconnect :: "nat \<Rightarrow> world \<Rightarrow> world" where
  "cancelReconnect r w =
     (case reconnectTimer (heap w ! r) of
        None \<Rightarrow> w
      | Some t \<Rightarrow> update_state r (\<lambda>s. s\<lparr>reconnectTimer := None\<rparr>) (clearTimeout t w))"

text \<open>Lines 232-234: a \<^verbatim>\<open>close\<close> listener that clears the timer \<open>t\<close>.\<close>

definition addCloseListener :: "nat \<Rightarrow> nat \<Rightarrow> world \<Rightarrow> world" where
  "addCloseListener p t w =
     w\<lparr>procs := (procs w)[p := (procs w ! p)\<lparr>closeClears := closeClears (procs w ! p) @ [t]\<rparr>]\<rparr>"

text \<open>Lines 219-235: interrupt the process, and arm the forced kill.\<close>

definition interrupt :: "nat \<Rightarrow> world \<Rightarrow> world" where
  "interrupt r w =
     (case process (heap w ! r) of
        None \<Rightarrow> w
      | Some p \<Rightarrow>
          if \<not> killed (procs w ! p)
          then (let (killTimeout, w') = setTimeout (ForceKill r) (kill p SIGINT w)
                in addCloseListener p killTimeout w')
          else w)"

text \<open>Lines 205-238.\<close>

definition stopStream :: "string \<Rightarrow> world \<Rightarrow> bool \<times> world" where
  "stopStream streamId w =
     (case map_of (activeStreams w) streamId of
        None \<Rightarrow> (False, w)
      | Some r \<Rightarrow>
          if status (heap w ! r) \<noteq> Running \<and> status (heap w ! r) \<noteq> Reconnecting
          then (False, w)
          else (True, interrupt r (cancelReconnect r
                        (update_state r (\<lambda>s. s\<lparr>status := Stopped\<rparr>) w))))"

text \<open>Lines 240-252. A field that the returned object does not have is \<open>None\<close>.\<close>

record statsReport =
  rep_time :: "string option"
  rep_loopCount :: "int option"

record statusReport =
  rep_status :: string
  reconnecting :: "bool option"
  reconnectAttempt :: "int option"
  rep_stats :: statsReport

fun status_string :: "status \<Rightarrow> string" where
  "status_string Running = ''running''"
| "status_string Reconnecting = ''reconnecting''"
| "status_string Stopped = ''stopped''"
| "status_string Completed = ''completed''"
| "status_string Error = ''error''"

definition getStreamStatus :: "world \<Rightarrow> string \<Rightarrow> statusReport" where
  "getStreamStatus w streamId =
     (case map_of (activeStreams w) streamId of
        None \<Rightarrow> \<lparr>rep_status = ''not_found'', reconnecting = None, reconnectAttempt = None,
                 rep_stats = \<lparr>rep_time = None, rep_loopCount = None\<rparr>\<rparr>
      | Some r \<Rightarrow>
          (let stream = heap w ! r
           in \<lparr>rep_status = (if status stream = Reconnecting then ''running''
                              else status_string (status stream)),
               reconnecting = Some (status stream = Reconnecting),
               reconnectAttempt = Some (reconnectAttempts stream),
               rep_stats = \<lparr>rep_time = Some (time (stats stream)),
                            rep_loopCount = Some (stats_loopCount (stats stream))\<rparr>\<rparr>))"

text \<open>
  The report has the four fields of the interface
  \<^verbatim>\<open>{status, reconnecting, reconnectAttempt, stats}\<close>; the object of line 243.
\<close>

definition has_all_fields :: "statusReport \<Rightarrow> bool" where
  "has_all_fields rep \<longleftrightarrow> reconnecting rep \<noteq> None \<and> reconnectAttempt rep \<noteq> None"

definition not_found_report :: statusReport where
  "not_found_report =
     \<lparr>rep_status = ''not_found'', reconnecting = None, reconnectAttempt = None,
      rep_stats = \<lparr>rep_time = None, rep_loopCount = None\<rparr>\<rparr>"

text \<open>Lines 258-260 and 261-267 of the loop body of \<^verbatim>\<open>stopAllStreams\<close>.\<close>

definition clearReconnect :: "nat \<Rightarrow> world \<Rightarrow> world" where
  "clearReconnect r w =
     (case reconnectTimer (heap w ! r) of None \<Rightarrow> w | Some t \<Rightarrow> clearTimeout t w)"

definition forceKill :: "nat \<Rightarrow> world \<Rightarrow> world" where
  "forceKill r w =
     (case process (heap w ! r) of
        None \<Rightarrow> w
      | Some p \<Rightarrow> if \<not> killed (procs w ! p) then kill p SIGKILL w else w)"

text \<open>Lines 254-271: the body of the loop for one entry of the registry, and the loop.\<close>

definition stopOne :: "string \<times> nat \<Rightarrow> world \<Rightarrow> world" where
  "stopOne entry w =
     (let r = snd entry
      in if status (heap w ! r) = Running \<or> status (heap w ! r) = Reconnecting
         then update_state r (\<lambda>s. s\<lparr>status := Stopped\<rparr>) (forceKill r (clearReconnect r w))
         else w)"

definition stopAllStreams :: "world \<Rightarrow> world" where
  "stopAllStreams w = fold stopOne (activeStreams w) w"

section \<open>Events\<close>

text \<open>
  Everything that happens to the supervisor: a call of an exported operation, a chunk
  of diagnostic output of a process, the \<^verbatim>\<open>close\<close> event of a process, a timer
  firing. The handlers of one process run only while it has not exited, its \<^verbatim>\<open>close\<close>
  event comes once, and a timer fires only while it is pending. Delays are not
  modelled: a pending timer may fire at any moment.
\<close>

datatype event =
    Start string string config nat
  | Stop string
  | StopAll
  | ProcData nat string
  | ProcClose nat "int option"
  | TimerFire nat

definition procClose :: "nat \<Rightarrow> int option \<Rightarrow> world \<Rightarrow> world" where
  "procClose p code w =
     (if p < length (procs w) \<and> \<not> exited (procs w ! p)
      then fold clearTimeout (closeClears (procs w ! p))
             (onClose p code (w\<lparr>procs := (procs w)[p := (procs w ! p)\<lparr>exited := True\<rparr>]\<rparr>))
      else w)"

definition timerFire :: "nat \<Rightarrow> world \<Rightarrow> world" where
  "timerFire t w =
     (if t < length (timers w) \<and> pending (timers w ! t)
      then runCallback (callback (timers w ! t)) (clearTimeout t w)
      else w)"

fun step :: "event \<Rightarrow> world \<Rightarrow> world" where
  "step (Start streamId filePath c now) w = snd (startStream streamId filePath c now w)"
| "step (Stop streamId) w = snd (stopStream streamId w)"
| "step StopAll w = stopAllStreams w"
| "step (ProcData p output) w =
     (if p < length (procs w) \<and> \<not> exited (procs w ! p) then onData p output w else w)"
| "step (ProcClose p code) w = procClose p code w"
| "step (TimerFire t) w = timerFire t w"

definition run :: "event list \<Rightarrow> world \<Rightarrow> world" where
  "run evs w = fold step evs w"

text \<open>The calls of exported operations that change the state.\<close>

fun is_call :: "event \<Rightarrow> bool" where
  "is_call (Start _ _ _ _) = True"
| "is_call (Stop _) = True"
| "is_call StopAll = True"
| "is_call _ = False"

fun starts :: "string \<Rightarrow> event \<Rightarrow> bool" where
  "starts streamId (Start i _ _ _) = (i = streamId)"
| "starts streamId _ = False"

text \<open>The number of processes ever spawned for the stream state \<open>r\<close>.\<close>

definition spawned_for :: "nat \<Rightarrow> world \<Rightarrow> nat" where
  "spawned_for r w = length (filter (\<lambda>p. cl_state p = r) (procs w))"

definition terminal :: "status \<Rightarrow> bool" where
  "terminal st \<longleftrightarrow> st = Stopped \<or> st = Completed \<or> st = Error"

text \<open>The stream states the processes were spawned for, in the order of the launches.\<close>

definition owners :: "world \<Rightarrow> nat list" where
  "owners w = map cl_state (procs w)"

text \<open>The guard of lines 207 and 256: the stream is running or reconnecting.\<close>

definition stoppable :: "world \<Rightarrow> nat \<Rightarrow> bool" where
  "stoppable w r \<longleftrightarrow> status (heap w ! r) = Running \<or> status (heap w ! r) = Reconnecting"

text \<open>The timer \<open>t\<close> exists and is no longer pending: it was cleared, or it has fired.\<close>

definition cancelled :: "nat \<Rightarrow> world \<Rightarrow> bool" where
  "cancelled t w \<longleftrightarrow> t < length (timers w) \<and> \<not> pending (timers w ! t)"

section \<open>The argument builder, statement by statement\<close>

text \<open>
  \<^verbatim>\<open>buildFfmpegArgs\<close> once more, as the sequence of statements the source is, to
  state what a call does to the state of the program. The state is the supervisor's
  world, the configuration objects and the arrays, both by reference: \<^verbatim>\<open>[]\<close>
  allocates an array, \<^verbatim>\<open>push\<close> updates one in place, and every read of
  \<^verbatim>\<open>config\<close> goes through the reference, at the moment of the read. The two lookup
  tables of lines 56-60 and 68-73 are the constants \<open>resMap\<close> and \<open>ratioMap\<close>.
\<close>

record program_state =
  supervisor :: world
  objs :: "config list"
  arrays :: "string list list"

definition newArray :: "program_state \<Rightarrow> nat \<times> program_state" where
  "newArray s = (length (arrays s), s\<lparr>arrays := arrays s @ [[]]\<rparr>)"

definition push :: "nat \<Rightarrow> string list \<Rightarrow> program_state \<Rightarrow> program_state" where
  "push a xs s = s\<lparr>arrays := (arrays s)[a := arrays s ! a @ xs]\<rparr>"

text \<open>Lines 24-28.\<close>

definition pushLoop :: "nat \<Rightarrow> nat \<Rightarrow> program_state \<Rightarrow> program_state" where
  "pushLoop args cref s =
     (let config = objs s ! cref
      in if truthy_bool (loop config) \<or> loopCount config = Some (- 1)
         then push args [''-stream_loop'', ''-1''] s
         else if gt_num (loopCount config) 1
         then push args [''-stream_loop'', String (the (loopCount config) - 1)] s
         else s)"

text \<open>Lines 31-33.\<close>

definition pushTrimStart :: "nat \<Rightarrow> nat \<Rightarrow> program_state \<Rightarrow> program_state" where
  "pushTrimStart args cref s =
     (let config = objs s ! cref
      in if truthy_num (startTime config) \<and> gt_num (startTime config) 0
         then push args [''-ss'', String (the (startTime config))] s
         else s)"

text \<open>Lines 38-41.\<close>

definition pushTrimDuration :: "nat \<Rightarrow> nat \<Rightarrow> program_state \<Rightarrow> program_state" where
  "pushTrimDuration args cref s =
     (let config = objs s ! cref;
          isLooping = truthy_bool (loop config) \<or> loopCount config = Some (- 1)
                      \<or> gt_num (loopCount config) 1
      in if \<not> isLooping \<and> truthy_num (endTime config) \<and> startTime config \<noteq> None
            \<and> the (endTime config) > the (startTime config)
         then push args [''-t'', String (the (endTime config) - the (startTime config))] s
         else s)"

text \<open>Lines 55-64.\<close>

definition pushScale :: "nat \<Rightarrow> nat \<Rightarrow> program_state \<Rightarrow> program_state" where
  "pushScale filters cref s =
     (let config = objs s ! cref
      in if truthy_str (resolution config) \<and> resolution config \<noteq> Some ''source''
         then (case resMap (the (resolution config)) of
                 None \<Rightarrow> s
               | Some v \<Rightarrow> push filters [''scale='' @ v] s)
         else s)"

text \<open>Lines 67-77.\<close>

definition pushSetdar :: "nat \<Rightarrow> nat \<Rightarrow> program_state \<Rightarrow> program_state" where
  "pushSetdar filters cref s =
     (let config = objs s ! cref
      in if truthy_str (aspectRatio config) \<and> aspectRatio config \<noteq> Some ''source''
         then (case ratioMap (the (aspectRatio config)) of
                 None \<Rightarrow> s
               | Some v \<Rightarrow> push filters [''setdar='' @ v] s)
         else s)"

text \<open>Lines 79-81.\<close>

definition pushFilters :: "nat \<Rightarrow> nat \<Rightarrow> program_state \<Rightarrow> program_state" where
  "pushFilters args filters s =
     (if length (arrays s ! filters) > 0
      then push args [''-vf'', join_comma (arrays s ! filters)] s
      else s)"

text \<open>Lines 84-86.\<close>

definition pushFrameRate :: "nat \<Rightarrow> nat \<Rightarrow> program_state \<Rightarrow> program_state" where
  "pushFrameRate args cref s =
     (case frameRate (objs s ! cref) of
        Some (FrNum r) \<Rightarrow> (if r \<noteq> 0 then push args [''-r'', String r] s else s)
      | _ \<Rightarrow> s)"

text \<open>Lines 94-96.\<close>

definition pushDefaultBitrate :: "nat \<Rightarrow> program_state \<Rightarrow> program_state" where
  "pushDefaultBitrate args s =
     push args [''-bufsize'', ''9000k'']
       (push args [''-maxrate'', ''4500k''] (push args [''-b:v'', ''4500k''] s))"

text \<open>Lines 89-97.\<close>

definition pushBitrate :: "nat \<Rightarrow> nat \<Rightarrow> program_state \<Rightarrow> program_state" where
  "pushBitrate args cref s =
     (case bitrate (objs s ! cref) of
        Some (BrNum b) \<Rightarrow>
          (if b \<noteq> 0
           then push args [''-bufsize'', String (b * 2) @ ''k'']
                  (push args [''-maxrate'', String b @ ''k'']
                     (push args [''-b:v'', String b @ ''k''] s))
           else pushDefaultBitrate args s)
      | _ \<Rightarrow> pushDefaultBitrate args s)"

text \<open>Lines 105-107.\<close>

definition pushDuration :: "nat \<Rightarrow> nat \<Rightarrow> program_state \<Rightarrow> program_state" where
  "pushDuration args cref s =
     (let config = objs s ! cref
      in if truthy_num (duration config) \<and> gt_num (duration config) 0
         then push args [''-t'', String (the (duration config) * 60)] s
         else s)"

text \<open>Lines 112-115.\<close>

definition pushDest :: "nat \<Rightarrow> nat \<Rightarrow> program_state \<Rightarrow> program_state" where
  "pushDest args cref s =
     (let config = objs s ! cref;
          rtmpDest = (if truthy_str (streamKey config)
                      then strip_trailing_slash (rtmpUrl config) @ ''/'' @ the (streamKey config)
                      else rtmpUrl config)
      in push args [rtmpDest] s)"

text \<open>Lines 17-118: the call; it returns the contents of the array \<^verbatim>\<open>args\<close> and the state it leaves.\<close>

definition buildFfmpegArgs_call :: "string \<Rightarrow> nat \<Rightarrow> program_state \<Rightarrow> string list \<times> program_state" where
  "buildFfmpegArgs_call filePath cref s0 =
     (let (args, s) = newArray s0;
          s = push args [''-re''] s;
          s = pushLoop args cref s;
          s = pushTrimStart args cref s;
          s = pushTrimDuration args cref s;
          s = push args [''-i'', filePath] s;
          s = push args [''-c:v'', ''libx264''] s;
          s = push args [''-preset'', ''veryfast''] s;
          s = push args [''-tune'', ''zerolatency''] s;
          (filters, s) = newArray s;
          s = pushScale filters cref s;
          s = pushSetdar filters cref s;
          s = pushFilters args filters s;
          s = pushFrameRate args cref s;
          s = pushBitrate args cref s;
          s = push args [''-c:a'', ''aac''] s;
          s = push args [''-b:a'', ''128k''] s;
          s = push args [''-ar'', ''44100''] s;
          s = pushDuration args cref s;
          s = push args [''-f'', ''flv''] s;
          s = pushDest args cref s
      in (arrays s ! args, s))"

section \<open>Well-formed worlds\<close>

text \<open>
  What holds of every world the supervisor can be in (it holds initially and every
  event keeps it, see \<open>wf_run\<close> below): the registry binds distinct identifiers to
  distinct, existing stream states; the process handle of a stream state is a process
  that was spawned for it; the timers that \<^verbatim>\<open>close\<close> listeners clear exist.
\<close>

definition handles :: "world \<Rightarrow> nat option list" where
  "handles w = map process (heap w)"

definition listeners :: "world \<Rightarrow> nat list list" where
  "listeners w = map closeClears (procs w)"

definition registry_ok :: "world \<Rightarrow> bool" where
  "registry_ok w \<longleftrightarrow>
     distinct (map fst (activeStreams w)) \<and> distinct (map snd (activeStreams w))
     \<and> (\<forall>r\<in>set (map snd (activeStreams w)). r < length (heap w))"

definition processes_owned :: "world \<Rightarrow> bool" where
  "processes_owned w \<longleftrightarrow>
     (\<forall>r\<in>{..<length (heap w)}.
        case process (heap w ! r) of
          None \<Rightarrow> True
        | Some p \<Rightarrow> p < length (procs w) \<and> cl_state (procs w ! p) = r)"

definition listeners_bounded :: "world \<Rightarrow> bool" where
  "listeners_bounded w \<longleftrightarrow>
     (\<forall>p\<in>{..<length (procs w)}. \<forall>t\<in>set (closeClears (procs w ! p)). t < length (timers w))"

definition wf_world :: "world \<Rightarrow> bool" where
  "wf_world w \<longleftrightarrow> registry_ok w \<and> processes_owned w \<and> listeners_bounded w"

text \<open>
  Two more facts of every world the supervisor can be in (lemma \<open>signals_ok_run\<close>): a
  timer for a forced kill belongs to a stopped stream, and the process of a stream
  that is running or reconnecting has received no signal from the supervisor.
\<close>

definition callbacks :: "world \<Rightarrow> callback list" where
  "callbacks w = map callback (timers w)"

definition forced_kills_stopped :: "world \<Rightarrow> bool" where
  "forced_kills_stopped w \<longleftrightarrow>
     (\<forall>t\<in>{..<length (timers w)}.
        case callback (timers w ! t) of
          ForceKill r \<Rightarrow> r < length (heap w) \<and> status (heap w ! r) = Stopped
        | Relaunch _ _ _ _ \<Rightarrow> True)"

definition unsignalled :: "world \<Rightarrow> bool" where
  "unsignalled w \<longleftrightarrow>
     (\<forall>r\<in>{..<length (heap w)}.
        stoppable w r \<longrightarrow>
          (case process (heap w ! r) of None \<Rightarrow> True | Some p \<Rightarrow> \<not> killed (procs w ! p)))"

definition signals_ok :: "world \<Rightarrow> bool" where
  "signals_ok w \<longleftrightarrow> wf_world w \<and> forced_kills_stopped w \<and> unsignalled w"

text \<open>An operation that leaves alone everything the invariant reads, but may add timers.\<close>

definition quiet :: "world \<Rightarrow> world \<Rightarrow> bool" where
  "quiet w w' \<longleftrightarrow>
     activeStreams w' = activeStreams w \<and> handles w' = handles w \<and> owners w' = owners w
     \<and> listeners w' = listeners w \<and> length (timers w) \<le> length (timers w')"

text \<open>
  A stream state that the registry no longer holds, and what it means that an
  operation leaves such a state and the processes spawned for it as they are.
\<close>

definition orphan :: "nat \<Rightarrow> world \<Rightarrow> bool" where
  "orphan r w \<longleftrightarrow> r < length (heap w) \<and> r \<notin> set (map snd (activeStreams w))"

definition untouched :: "nat \<Rightarrow> world \<Rightarrow> world \<Rightarrow> bool" where
  "untouched r w w' \<longleftrightarrow>
     heap w' ! r = heap w ! r
     \<and> (\<forall>p<length (procs w). cl_state (procs w ! p) = r \<longrightarrow> procs w' ! p = procs w ! p)"

section \<open>Example inputs\<close>

definition cfg_loop3 :: config where
  "cfg_loop3 =
     \<lparr>loop = None, loopCount = Some 3, startTime = Some 10, endTime = Some 55,
      duration = Some 2, resolution = Some ''720p'', aspectRatio = Some ''16:9'',
      frameRate = Some (FrNum 30), bitrate = Some (BrNum 2500),
      rtmpUrl = ''rtmp://x/live/'', streamKey = Some ''key''\<rparr>"

text \<open>The same configuration without a stream key, and a chunk of progress output.\<close>

definition cfg_nokey :: config where
  "cfg_nokey = cfg_loop3\<lparr>streamKey := None\<rparr>"

definition chunk_0130 :: string where
  "chunk_0130 = ''frame= 2250 fps= 25 q=28.0 size=   51200kB time=00:01:30.04 bitrate=4659.2kbits/s''"

text \<open>
  One stream started; the same after its process exited with code 1; the same after
  a stop request during the reconnect delay.
\<close>

definition w_running :: world where
  "w_running = run [Start ''s1'' ''clip.mp4'' cfg_loop3 0] init_world"

definition w_reconnecting :: world where
  "w_reconnecting = run [ProcClose 0 (Some 1)] w_running"

definition w_stopped :: world where
  "w_stopped = run [Stop ''s1''] w_reconnecting"

definition evs_after_stop :: "event list" where
  "evs_after_stop = [TimerFire 0, ProcClose 0 (Some 1), Stop ''s1'', StopAll, TimerFire 1]"

text \<open>
  The running stream with its attempt counter at the maximum, and the running stream
  after a second \<open>startStream\<close> with the same identifier.
\<close>

definition w_last_attempt :: world where
  "w_last_attempt = update_state 0 (\<lambda>s. s\<lparr>reconnectAttempts := 10\<rparr>) w_running"

definition w_restarted :: world where
  "w_restarted = snd (startStream ''s1'' ''other.mp4'' cfg_nokey 7 w_running)"

text \<open>Two program states that hold the same configuration at different references.\<close>

definition ps_one :: program_state where
  "ps_one = \<lparr>supervisor = w_running, objs = [cfg_loop3], arrays = []\<rparr>"

definition ps_two :: program_state where
  "ps_two = \<lparr>supervisor = init_world, objs = [cfg_nokey, cfg_loop3], arrays = [[''x'']]\<rparr>"

section \<open>Properties of the argument builder\<close>

lemma digit_char_in: "d < 10 \<Longrightarrow> digit_char d \<in> set ''0123456789''"
  unfolding digit_char_def by (rule nth_mem) simp

lemma string_of_nat_digits: "set (string_of_nat n) \<subseteq> set ''0123456789''"
proof (induction n rule: string_of_nat.induct)
  case (1 n)
  show ?case
  proof (cases "n < 10")
    case True
    then show ?thesis using digit_char_in [of n] by (subst string_of_nat.simps) simp
  next
    case False
    have "n mod 10 < 10" by simp
    from digit_char_in [OF this] 1 False show ?thesis
      by (subst string_of_nat.simps) simp
  qed
qed

lemma String_chars: "set (String n) \<subseteq> set ''-0123456789''"
proof (cases "n < 0")
  case True
  then show ?thesis using string_of_nat_digits [of "nat (- n)"]
    by (simp add: String_def subset_insertI2)
next
  case False
  then show ?thesis using string_of_nat_digits [of "nat n"]
    by (simp add: String_def subset_insertI2)
qed

text \<open>No numeral is the input marker or the duration flag.\<close>

lemma String_not_flag: "String n \<noteq> ''-i''" "String n \<noteq> ''-t''"
proof -
  have i: "CHR ''i'' \<notin> set ''-0123456789''" and t: "CHR ''t'' \<notin> set ''-0123456789''"
    by simp_all
  show "String n \<noteq> ''-i''"
  proof
    assume "String n = ''-i''"
    then have "CHR ''i'' \<in> set (String n)" by simp
    with String_chars [of n] i show False by blast
  qed
  show "String n \<noteq> ''-t''"
  proof
    assume "String n = ''-t''"
    then have "CHR ''t'' \<in> set (String n)" by simp
    with String_chars [of n] t show False by blast
  qed
qed

lemma marker_not_String: "''-i'' \<notin> range String"
  using String_not_flag(1) by (metis rangeE)

lemma cap_not_String: "''-t'' \<notin> range String"
  using String_not_flag(2) by (metis rangeE)

lemma loopArgs_set: "set (loopArgs c) \<subseteq> {''-stream_loop'', ''-1''} \<union> range String"
  by (auto simp: loopArgs_def)

lemma trimStartArgs_set: "set (trimStartArgs c) \<subseteq> {''-ss''} \<union> range String"
  by (auto simp: trimStartArgs_def)

lemma trimDurationArgs_set: "set (trimDurationArgs c) \<subseteq> {''-t''} \<union> range String"
  by (auto simp: trimDurationArgs_def)

lemma trimDurationArgs_looping: "isLooping c \<Longrightarrow> trimDurationArgs c = []"
  by (simp add: trimDurationArgs_def)

lemma marker_not_inputSide: "''-i'' \<notin> set (inputSide c)"
proof -
  have a: "''-i'' \<notin> {''-stream_loop'', ''-1''}" "''-i'' \<notin> {''-ss''}" "''-i'' \<notin> {''-t''}"
    "''-i'' \<noteq> ''-re''"
    by simp_all
  from a(1) marker_not_String loopArgs_set [of c]
  have 1: "''-i'' \<notin> set (loopArgs c)" by blast
  from a(2) marker_not_String trimStartArgs_set [of c]
  have 2: "''-i'' \<notin> set (trimStartArgs c)" by blast
  from a(3) marker_not_String trimDurationArgs_set [of c]
  have 3: "''-i'' \<notin> set (trimDurationArgs c)" by blast
  from 1 2 3 a(4) show ?thesis unfolding inputSide_def by simp
qed

lemma build_split: "\<exists>rest. buildFfmpegArgs filePath c = inputSide c @ ''-i'' # rest"
  unfolding buildFfmpegArgs_def inputSide_def by simp

text \<open>
  The first \<^verbatim>\<open>-i\<close> of the list is the input marker pushed at line 44: what stands in
  front of it is exactly what lines 21-41 push.
\<close>

lemma inputOptions_build: "inputOptions (buildFfmpegArgs filePath c) = inputSide c"
proof -
  obtain rest where r: "buildFfmpegArgs filePath c = inputSide c @ ''-i'' # rest"
    using build_split by blast
  have "\<forall>a\<in>set (inputSide c). a \<noteq> ''-i''"
    using marker_not_inputSide [of c] by blast
  then show ?thesis unfolding inputOptions_def r
    by (simp only: takeWhile_append2 takeWhile.simps simp_thms if_False append_Nil2)
qed

text \<open>
  Claim C1. For every configuration with \<open>loopCount > 1\<close> and \<open>endTime > startTime\<close>, the
  argument list of \<open>buildFfmpegArgs\<close> has no duration flag \<^verbatim>\<open>-t\<close> in front of the input
  marker \<^verbatim>\<open>-i\<close>: looping suppresses the input-side duration cap.
\<close>

theorem looping_suppresses_input_duration_cap:
  assumes "loopCount c = Some n" and "n > 1"
    and "startTime c = Some s" and "endTime c = Some e" and "e > s"
  shows "''-t'' \<notin> set (inputOptions (buildFfmpegArgs filePath c))"
proof -
  from assms(1,2) have "isLooping c" by (simp add: isLooping_def gt_num_def)
  then have d: "trimDurationArgs c = []" by (rule trimDurationArgs_looping)
  have a: "''-t'' \<notin> {''-stream_loop'', ''-1''}" "''-t'' \<notin> {''-ss''}" "''-t'' \<noteq> ''-re''"
    by simp_all
  from a(1) cap_not_String loopArgs_set [of c]
  have 1: "''-t'' \<notin> set (loopArgs c)" by blast
  from a(2) cap_not_String trimStartArgs_set [of c]
  have 2: "''-t'' \<notin> set (trimStartArgs c)" by blast
  from 1 2 a(3) d show ?thesis unfolding inputOptions_build inputSide_def by simp
qed

theorem looping_suppresses_input_duration_cap_witness:
  "loopCount cfg_loop3 = Some 3 \<and> (3::int) > 1
   \<and> startTime cfg_loop3 = Some 10 \<and> endTime cfg_loop3 = Some 55 \<and> (55::int) > 10
   \<and> ''-t'' \<notin> set (inputOptions (buildFfmpegArgs ''clip.mp4'' cfg_loop3))"
proof -
  have h: "loopCount cfg_loop3 = Some 3" "(3::int) > 1"
    "startTime cfg_loop3 = Some 10" "endTime cfg_loop3 = Some 55" "(55::int) > 10"
    by (simp_all add: cfg_loop3_def)
  from h looping_suppresses_input_duration_cap [OF h, of "''clip.mp4''"]
  show ?thesis by simp
qed

section \<open>The destination\<close>

lemma last_build: "last (buildFfmpegArgs filePath c) = rtmpDest c"
  by (simp add: buildFfmpegArgs_def)

text \<open>
  Claim C7, as amended. The last element of the argument list is the destination. When
  a stream key is configured (a non-empty string), it is the base URL with one
  trailing slash removed, a slash, and the key; when none is configured it is the
  base URL as it is, a trailing slash included.
\<close>

theorem destination_is_last:
  "last (buildFfmpegArgs filePath c) =
     (if truthy_str (streamKey c)
      then strip_trailing_slash (rtmpUrl c) @ ''/'' @ the (streamKey c)
      else rtmpUrl c)"
  by (simp add: last_build rtmpDest_def)

theorem destination_is_last_witness:
  "last (buildFfmpegArgs ''clip.mp4'' cfg_loop3) = ''rtmp://x/live/key''
   \<and> last (buildFfmpegArgs ''clip.mp4'' cfg_nokey) = ''rtmp://x/live/''"
  using destination_is_last [of "''clip.mp4''" cfg_loop3]
    destination_is_last [of "''clip.mp4''" cfg_nokey]
  by (simp add: cfg_loop3_def cfg_nokey_def truthy_str_def strip_trailing_slash_def)

text \<open>
  As the claim words it, the trailing slash would be stripped also when no key is
  configured; with the base URL \<^verbatim>\<open>rtmp://x/live/\<close> and no key the list ends with
  \<^verbatim>\<open>rtmp://x/live/\<close>.
\<close>

theorem destination_keeps_slash_without_key:
  "last (buildFfmpegArgs ''clip.mp4'' cfg_nokey) \<noteq> claimed_destination cfg_nokey"
  by (simp add: last_build rtmpDest_def claimed_destination_def cfg_nokey_def cfg_loop3_def
      truthy_str_def strip_trailing_slash_def)

section \<open>Properties of the progress parser\<close>

lemma is_digit_not_colon: "is_digit ch \<Longrightarrow> ch \<noteq> CHR '':''"
  by (auto simp: is_digit_def)

lemma take8_drop5:
  assumes "length s \<ge> 13"
  shows "take 8 (drop 5 s) = [s ! 5, s ! 6, s ! 7, s ! 8, s ! 9, s ! 10, s ! 11, s ! 12]"
proof -
  have d: "drop i s = s ! i # drop (Suc i) s" if "i < length s" for i
    using that by (simp add: Cons_nth_drop_Suc)
  from assms have "drop 5 s = s ! 5 # drop 6 s" "drop 6 s = s ! 6 # drop 7 s"
    "drop 7 s = s ! 7 # drop 8 s" "drop 8 s = s ! 8 # drop 9 s"
    "drop 9 s = s ! 9 # drop 10 s" "drop 10 s = s ! 10 # drop 11 s"
    "drop 11 s = s ! 11 # drop 12 s" "drop 12 s = s ! 12 # drop 13 s"
    using d [of 5] d [of 6] d [of 7] d [of 8] d [of 9] d [of 10] d [of 11] d [of 12]
    by simp_all
  then have "drop 5 s =
      s ! 5 # s ! 6 # s ! 7 # s ! 8 # s ! 9 # s ! 10 # s ! 11 # s ! 12 # drop 13 s"
    by (simp only:)
  then show ?thesis by simp
qed

lemma hmsI:
  "is_digit h1 \<Longrightarrow> is_digit h2 \<Longrightarrow> is_digit m1 \<Longrightarrow> is_digit m2 \<Longrightarrow> is_digit s1 \<Longrightarrow>
   is_digit s2 \<Longrightarrow> hms [h1, h2, CHR '':'', m1, m2, CHR '':'', s1, s2]"
  unfolding hms_def by blast

lemma time_at_hms: "time_at s \<Longrightarrow> hms (take 8 (drop 5 s))"
proof -
  assume a: "time_at s"
  then have len: "length s \<ge> 13" by (simp add: time_at_def)
  from a have c: "s ! 7 = CHR '':''" "s ! 10 = CHR '':''" by (simp_all add: time_at_def)
  from a have "hms [s ! 5, s ! 6, CHR '':'', s ! 8, s ! 9, CHR '':'', s ! 11, s ! 12]"
    by (intro hmsI) (simp_all add: time_at_def)
  then show ?thesis unfolding take8_drop5 [OF len] c .
qed

lemma timeMatch_hms: "timeMatch out = Some t \<Longrightarrow> hms t"
proof (induction out)
  case Nil
  then show ?case by simp
next
  case (Cons ch cs)
  show ?case
  proof (cases "time_at (ch # cs)")
    case True
    with Cons.prems have "t = take 8 (drop 5 (ch # cs))" by simp
    with time_at_hms [OF True] show ?thesis by simp
  next
    case False
    with Cons show ?thesis by simp
  qed
qed

lemma elapsed_hms:
  assumes "is_digit h1" "is_digit h2" "is_digit m1" "is_digit m2" "is_digit s1" "is_digit s2"
  shows "elapsed [h1, h2, CHR '':'', m1, m2, CHR '':'', s1, s2] =
           (10 * digit_val h1 + digit_val h2) * 3600
           + (10 * digit_val m1 + digit_val m2) * 60
           + (10 * digit_val s1 + digit_val s2)"
  using assms [THEN is_digit_not_colon]
  by (simp add: elapsed_def Number_def Let_def)

section \<open>Frames of the operations\<close>

lemma update_state_frame [simp]:
  "activeStreams (update_state r f w) = activeStreams w"
  "procs (update_state r f w) = procs w"
  "timers (update_state r f w) = timers w"
  "length (heap (update_state r f w)) = length (heap w)"
  by (simp_all add: update_state_def)

lemma update_state_nth:
  "heap (update_state r f w) ! r' =
     (if r' = r \<and> r < length (heap w) then f (heap w ! r) else heap w ! r')"
  by (cases "r < length (heap w)") (auto simp: update_state_def nth_list_update list_update_beyond)

lemma clearTimeout_frame [simp]:
  "activeStreams (clearTimeout t w) = activeStreams w"
  "heap (clearTimeout t w) = heap w"
  "procs (clearTimeout t w) = procs w"
  "length (timers (clearTimeout t w)) = length (timers w)"
  by (simp_all add: clearTimeout_def)

lemma clearTimeout_nth:
  "timers (clearTimeout t w) ! t' =
     (if t' = t \<and> t < length (timers w) then (timers w ! t)\<lparr>pending := False\<rparr>
      else timers w ! t')"
  by (cases "t < length (timers w)") (auto simp: clearTimeout_def nth_list_update list_update_beyond)

lemma setTimeout_frame [simp]:
  "fst (setTimeout cb w) = length (timers w)"
  "activeStreams (snd (setTimeout cb w)) = activeStreams w"
  "heap (snd (setTimeout cb w)) = heap w"
  "procs (snd (setTimeout cb w)) = procs w"
  "timers (snd (setTimeout cb w)) = timers w @ [\<lparr>callback = cb, pending = True\<rparr>]"
  by (simp_all add: setTimeout_def)

lemma kill_frame [simp]:
  "activeStreams (kill p sg w) = activeStreams w"
  "heap (kill p sg w) = heap w"
  "timers (kill p sg w) = timers w"
  "length (procs (kill p sg w)) = length (procs w)"
  by (simp_all add: kill_def)

lemma map_update_same: "f y = f (xs ! k) \<Longrightarrow> map f (xs[k := y]) = map f xs"
  by (cases "k < length xs") (simp_all add: map_update list_update_same_conv list_update_beyond)

lemma spawned_for_owners: "spawned_for r w = length (filter (\<lambda>x. x = r) (owners w))"
  by (simp add: spawned_for_def owners_def filter_map comp_def)

lemma owners_kill [simp]: "owners (kill p sg w) = owners w"
  by (simp add: owners_def kill_def map_update_same)

lemma owners_update_state [simp]: "owners (update_state r f w) = owners w"
  by (simp add: owners_def)

lemma owners_clearTimeout [simp]: "owners (clearTimeout t w) = owners w"
  by (simp add: owners_def)

lemma owners_fields [simp]:
  "owners (w\<lparr>heap := h\<rparr>) = owners w"
  "owners (w\<lparr>timers := ts\<rparr>) = owners w"
  "owners (w\<lparr>activeStreams := a\<rparr>) = owners w"
  by (simp_all add: owners_def)

lemma owners_setTimeout [simp]: "owners (snd (setTimeout cb w)) = owners w"
  by (simp add: owners_def)

lemma spawnFfmpeg_frame [simp]:
  "activeStreams (spawnFfmpeg i f c r w) = activeStreams w"
  "timers (spawnFfmpeg i f c r w) = timers w"
  "length (heap (spawnFfmpeg i f c r w)) = length (heap w)"
  "length (procs (spawnFfmpeg i f c r w)) = Suc (length (procs w))"
  "owners (spawnFfmpeg i f c r w) = owners w @ [r]"
  by (simp_all add: spawnFfmpeg_def Let_def owners_def)

lemma spawnFfmpeg_nth:
  "heap (spawnFfmpeg i f c r w) ! r' =
     (if r' = r \<and> r < length (heap w)
      then (heap w ! r)\<lparr>process := Some (length (procs w)), status := Running\<rparr>
      else heap w ! r')"
  by (simp add: spawnFfmpeg_def Let_def update_state_nth)

lemma progress_status [simp]: "status (progress c t s) = status s"
  by (simp add: progress_def Let_def)

lemma onData_frame [simp]:
  "activeStreams (onData p out w) = activeStreams w"
  "procs (onData p out w) = procs w"
  "timers (onData p out w) = timers w"
  "length (heap (onData p out w)) = length (heap w)"
  by (simp_all add: onData_def split: option.splits)

lemma onData_owners [simp]: "owners (onData p out w) = owners w"
  by (simp add: owners_def)

lemma onData_status [simp]: "status (heap (onData p out w) ! r) = status (heap w ! r)"
  by (simp add: onData_def update_state_nth split: option.splits)

lemma onClose_frame [simp]:
  "activeStreams (onClose p code w) = activeStreams w"
  "procs (onClose p code w) = procs w"
  "length (heap (onClose p code w)) = length (heap w)"
  by (simp_all add: onClose_def Let_def split_def)

lemma onClose_other:
  "cl_state (procs w ! p) \<noteq> r \<Longrightarrow> heap (onClose p code w) ! r = heap w ! r"
  by (simp add: onClose_def Let_def split_def update_state_nth)

lemma onClose_not_running:
  "status (heap w ! cl_state (procs w ! p)) \<noteq> Running \<Longrightarrow> onClose p code w = w"
  by (simp add: onClose_def Let_def)

lemma onClose_terminal:
  assumes "terminal (status (heap w ! r))"
  shows "status (heap (onClose p code w) ! r) = status (heap w ! r)"
proof (cases "cl_state (procs w ! p) = r")
  case True
  with assms have "status (heap w ! cl_state (procs w ! p)) \<noteq> Running"
    by (auto simp: terminal_def)
  then show ?thesis by (simp add: onClose_not_running)
next
  case False
  then show ?thesis by (simp add: onClose_other)
qed

lemma fold_clearTimeout_frame [simp]:
  "activeStreams (fold clearTimeout ts w) = activeStreams w"
  "heap (fold clearTimeout ts w) = heap w"
  "procs (fold clearTimeout ts w) = procs w"
  "length (timers (fold clearTimeout ts w)) = length (timers w)"
  by (induction ts arbitrary: w) simp_all

lemma procClose_frame [simp]:
  "activeStreams (procClose p code w) = activeStreams w"
  "length (heap (procClose p code w)) = length (heap w)"
  "length (procs (procClose p code w)) = length (procs w)"
  "owners (procClose p code w) = owners w"
  by (simp_all add: procClose_def owners_def map_update_same)

lemma procClose_terminal:
  assumes "terminal (status (heap w ! r))"
  shows "status (heap (procClose p code w) ! r) = status (heap w ! r)"
proof (cases "p < length (procs w) \<and> \<not> exited (procs w ! p)")
  case True
  let ?w0 = "w\<lparr>procs := (procs w)[p := (procs w ! p)\<lparr>exited := True\<rparr>]\<rparr>"
  from assms have "terminal (status (heap ?w0 ! r))" by simp
  from onClose_terminal [OF this] True show ?thesis by (simp add: procClose_def)
next
  case False
  then show ?thesis by (auto simp: procClose_def)
qed

lemma runCallback_frame [simp]:
  "activeStreams (runCallback cb w) = activeStreams w"
  "length (heap (runCallback cb w)) = length (heap w)"
  by (cases cb; simp split: option.splits)+

lemma timerFire_frame [simp]:
  "activeStreams (timerFire t w) = activeStreams w"
  "length (heap (timerFire t w)) = length (heap w)"
  by (simp_all add: timerFire_def)

lemma runCallback_terminal:
  assumes "terminal (status (heap w ! r))"
  shows "status (heap (runCallback cb w) ! r) = status (heap w ! r)"
    and "spawned_for r (runCallback cb w) = spawned_for r w"
  using assms
  by (cases cb; auto simp: terminal_def spawnFfmpeg_nth spawned_for_owners split: option.splits)+

lemma timerFire_terminal:
  assumes "terminal (status (heap w ! r))"
  shows "status (heap (timerFire t w) ! r) = status (heap w ! r)"
    and "spawned_for r (timerFire t w) = spawned_for r w"
proof -
  from assms have a: "terminal (status (heap (clearTimeout t w) ! r))" by simp
  show "status (heap (timerFire t w) ! r) = status (heap w ! r)"
    using runCallback_terminal(1) [OF a] by (simp add: timerFire_def)
  show "spawned_for r (timerFire t w) = spawned_for r w"
    using runCallback_terminal(2) [OF a] by (simp add: timerFire_def spawned_for_owners)
qed

lemma startStream_frame [simp]:
  "fst (startStream i f c now w) = i"
  "activeStreams (snd (startStream i f c now w)) = AList.update i (length (heap w)) (activeStreams w)"
  "timers (snd (startStream i f c now w)) = timers w"
  "length (heap (snd (startStream i f c now w))) = Suc (length (heap w))"
  "length (procs (snd (startStream i f c now w))) = Suc (length (procs w))"
  by (simp_all add: startStream_def Let_def)

lemma startStream_owners [simp]:
  "owners (snd (startStream i f c now w)) = owners w @ [length (heap w)]"
  by (simp add: startStream_def Let_def spawnFfmpeg_def owners_def)

lemma startStream_old:
  "r < length (heap w) \<Longrightarrow> heap (snd (startStream i f c now w)) ! r = heap w ! r"
  by (simp add: startStream_def Let_def spawnFfmpeg_nth nth_append)

lemma startStream_old_proc:
  "p < length (procs w) \<Longrightarrow> procs (snd (startStream i f c now w)) ! p = procs w ! p"
  by (simp add: startStream_def Let_def spawnFfmpeg_def nth_append)

lemma addCloseListener_frame [simp]:
  "activeStreams (addCloseListener p t w) = activeStreams w"
  "heap (addCloseListener p t w) = heap w"
  "timers (addCloseListener p t w) = timers w"
  "length (procs (addCloseListener p t w)) = length (procs w)"
  "owners (addCloseListener p t w) = owners w"
  by (simp_all add: addCloseListener_def owners_def map_update_same)

lemma cancelReconnect_frame [simp]:
  "activeStreams (cancelReconnect r w) = activeStreams w"
  "procs (cancelReconnect r w) = procs w"
  "length (heap (cancelReconnect r w)) = length (heap w)"
  "length (timers (cancelReconnect r w)) = length (timers w)"
  "owners (cancelReconnect r w) = owners w"
  by (simp_all add: cancelReconnect_def split: option.splits)

lemma cancelReconnect_nth:
  "heap (cancelReconnect r w) ! r' =
     (if r' = r \<and> r < length (heap w) \<and> reconnectTimer (heap w ! r) \<noteq> None
      then (heap w ! r)\<lparr>reconnectTimer := None\<rparr> else heap w ! r')"
  by (auto simp: cancelReconnect_def update_state_nth split: option.splits)

lemma interrupt_frame [simp]:
  "activeStreams (interrupt r w) = activeStreams w"
  "heap (interrupt r w) = heap w"
  "length (procs (interrupt r w)) = length (procs w)"
  "owners (interrupt r w) = owners w"
  by (simp_all add: interrupt_def split_def Let_def split: option.splits)

lemma stopStream_refused:
  "map_of (activeStreams w) i = None \<Longrightarrow> stopStream i w = (False, w)"
  "map_of (activeStreams w) i = Some r \<Longrightarrow> \<not> stoppable w r \<Longrightarrow> stopStream i w = (False, w)"
  by (simp_all add: stopStream_def stoppable_def)

lemma stopStream_applied:
  "map_of (activeStreams w) i = Some r \<Longrightarrow> stoppable w r \<Longrightarrow>
     stopStream i w = (True, interrupt r (cancelReconnect r
                        (update_state r (\<lambda>s. s\<lparr>status := Stopped\<rparr>) w)))"
  by (auto simp: stopStream_def stoppable_def)

lemma stopStream_frame [simp]:
  "activeStreams (snd (stopStream i w)) = activeStreams w"
  "length (heap (snd (stopStream i w))) = length (heap w)"
  "length (procs (snd (stopStream i w))) = length (procs w)"
  "owners (snd (stopStream i w)) = owners w"
  by (simp_all add: stopStream_def split: option.splits)

lemma stopStream_other:
  "map_of (activeStreams w) i \<noteq> Some r \<Longrightarrow> heap (snd (stopStream i w)) ! r = heap w ! r"
  by (auto simp: stopStream_def cancelReconnect_nth update_state_nth split: option.splits)

lemma stopStream_terminal:
  assumes "terminal (status (heap w ! r))"
  shows "status (heap (snd (stopStream i w)) ! r) = status (heap w ! r)"
proof (cases "map_of (activeStreams w) i = Some r")
  case True
  from assms have "\<not> stoppable w r" by (auto simp: terminal_def stoppable_def)
  with True show ?thesis by (simp add: stopStream_refused)
next
  case False
  then show ?thesis by (simp add: stopStream_other)
qed

lemma clearReconnect_frame [simp]:
  "activeStreams (clearReconnect r w) = activeStreams w"
  "heap (clearReconnect r w) = heap w"
  "procs (clearReconnect r w) = procs w"
  "length (timers (clearReconnect r w)) = length (timers w)"
  "owners (clearReconnect r w) = owners w"
  by (simp_all add: clearReconnect_def split: option.splits)

lemma forceKill_frame [simp]:
  "activeStreams (forceKill r w) = activeStreams w"
  "heap (forceKill r w) = heap w"
  "timers (forceKill r w) = timers w"
  "length (procs (forceKill r w)) = length (procs w)"
  "owners (forceKill r w) = owners w"
  by (simp_all add: forceKill_def split: option.splits)

lemma stopOne_frame [simp]:
  "activeStreams (stopOne e w) = activeStreams w"
  "length (heap (stopOne e w)) = length (heap w)"
  "length (procs (stopOne e w)) = length (procs w)"
  "length (timers (stopOne e w)) = length (timers w)"
  "owners (stopOne e w) = owners w"
  by (simp_all add: stopOne_def Let_def)

lemma stopOne_other: "snd e \<noteq> r \<Longrightarrow> heap (stopOne e w) ! r = heap w ! r"
  by (simp add: stopOne_def Let_def update_state_nth)

lemma stopOne_refused: "\<not> stoppable w (snd e) \<Longrightarrow> stopOne e w = w"
  by (simp add: stopOne_def stoppable_def Let_def)

lemma stopOne_terminal:
  assumes "terminal (status (heap w ! r))"
  shows "status (heap (stopOne e w) ! r) = status (heap w ! r)"
proof (cases "snd e = r")
  case True
  from assms have "\<not> stoppable w r" by (auto simp: terminal_def stoppable_def)
  with True show ?thesis by (simp add: stopOne_refused)
next
  case False
  then show ?thesis by (simp add: stopOne_other)
qed

lemma fold_stopOne_frame [simp]:
  "activeStreams (fold stopOne es w) = activeStreams w"
  "length (heap (fold stopOne es w)) = length (heap w)"
  "length (procs (fold stopOne es w)) = length (procs w)"
  "length (timers (fold stopOne es w)) = length (timers w)"
  "owners (fold stopOne es w) = owners w"
  by (induction es arbitrary: w) simp_all

lemma fold_stopOne_terminal:
  "terminal (status (heap w ! r)) \<Longrightarrow>
     status (heap (fold stopOne es w) ! r) = status (heap w ! r)"
proof (induction es arbitrary: w)
  case Nil
  then show ?case by simp
next
  case (Cons e es)
  from Cons.prems have "status (heap (stopOne e w) ! r) = status (heap w ! r)"
    by (rule stopOne_terminal)
  with Cons show ?case by simp
qed

text \<open>One step keeps a terminal status, and spawns nothing for its stream state.\<close>

lemma step_terminal:
  assumes "r < length (heap w)" and "terminal (status (heap w ! r))"
  shows "r < length (heap (step e w))"
    and "status (heap (step e w) ! r) = status (heap w ! r)"
    and "spawned_for r (step e w) = spawned_for r w"
proof -
  show "r < length (heap (step e w))"
    using assms(1) by (cases e) (simp_all add: stopAllStreams_def)
  show "status (heap (step e w) ! r) = status (heap w ! r)"
    using assms
    by (cases e)
      (simp_all add: startStream_old stopStream_terminal stopAllStreams_def
        fold_stopOne_terminal procClose_terminal timerFire_terminal)
  have own: "owners w' = owners w \<Longrightarrow> spawned_for r w' = spawned_for r w" for w'
    by (simp add: spawned_for_owners)
  show "spawned_for r (step e w) = spawned_for r w"
  proof (cases e)
    case (Start i f c now)
    with assms(1) show ?thesis by (simp add: spawned_for_owners)
  next
    case (TimerFire t)
    with assms(2) show ?thesis by (simp add: timerFire_terminal)
  qed (rule own, simp add: stopAllStreams_def)+
qed

lemma run_terminal:
  assumes "r < length (heap w)" and "terminal (status (heap w ! r))"
  shows "r < length (heap (run evs w)) \<and> status (heap (run evs w) ! r) = status (heap w ! r)
         \<and> spawned_for r (run evs w) = spawned_for r w"
  using assms
proof (induction evs arbitrary: w)
  case Nil
  then show ?case by (simp add: run_def)
next
  case (Cons e evs)
  note s = step_terminal [OF Cons.prems, of e]
  from s(2) Cons.prems(2) have "terminal (status (heap (step e w) ! r))" by simp
  from Cons.IH [OF s(1) this] s show ?case by (simp add: run_def)
qed

lemma cancelled_clearTimeout: "cancelled t w \<Longrightarrow> cancelled t (clearTimeout t' w)"
  by (simp add: cancelled_def clearTimeout_nth)

lemma cancelled_same: "timers w' = timers w \<Longrightarrow> cancelled t w \<Longrightarrow> cancelled t w'"
  by (simp add: cancelled_def)

lemma cancelled_setTimeout: "cancelled t w \<Longrightarrow> cancelled t (snd (setTimeout cb w))"
  by (simp add: cancelled_def nth_append)

lemma cancelled_fold_clearTimeout: "cancelled t w \<Longrightarrow> cancelled t (fold clearTimeout ts w)"
  by (induction ts arbitrary: w) (simp_all add: cancelled_clearTimeout)

lemma cancelled_onClose: "cancelled t w \<Longrightarrow> cancelled t (onClose p code w)"
  by (simp add: onClose_def Let_def split_def cancelled_def nth_append)

lemma cancelled_procClose: "cancelled t w \<Longrightarrow> cancelled t (procClose p code w)"
proof -
  assume a: "cancelled t w"
  let ?w0 = "w\<lparr>procs := (procs w)[p := (procs w ! p)\<lparr>exited := True\<rparr>]\<rparr>"
  from a have "cancelled t ?w0" by (simp add: cancelled_def)
  then have "cancelled t (fold clearTimeout (closeClears (procs w ! p)) (onClose p code ?w0))"
    by (intro cancelled_fold_clearTimeout cancelled_onClose)
  with a show ?thesis by (simp add: procClose_def)
qed

lemma cancelled_runCallback: "cancelled t w \<Longrightarrow> cancelled t (runCallback cb w)"
  by (cases cb) (simp_all add: cancelled_def split: option.splits)

lemma cancelled_timerFire: "cancelled t w \<Longrightarrow> cancelled t (timerFire t' w)"
  by (simp add: timerFire_def cancelled_runCallback cancelled_clearTimeout)

lemma cancelled_interrupt: "cancelled t w \<Longrightarrow> cancelled t (interrupt r w)"
  by (simp add: interrupt_def split_def Let_def cancelled_def nth_append split: option.splits)

lemma cancelled_cancelReconnect: "cancelled t w \<Longrightarrow> cancelled t (cancelReconnect r w)"
  by (simp add: cancelReconnect_def cancelled_def clearTimeout_nth split: option.splits)

lemma cancelled_update_state: "cancelled t w \<Longrightarrow> cancelled t (update_state r f w)"
  by (simp add: cancelled_def)

lemma cancelled_stopStream: "cancelled t w \<Longrightarrow> cancelled t (snd (stopStream i w))"
  by (simp add: stopStream_def cancelled_interrupt cancelled_cancelReconnect
      cancelled_update_state split: option.splits)

lemma cancelled_stopOne: "cancelled t w \<Longrightarrow> cancelled t (stopOne e w)"
  by (simp add: stopOne_def Let_def clearReconnect_def cancelled_def clearTimeout_nth
      split: option.splits)

lemma cancelled_fold_stopOne: "cancelled t w \<Longrightarrow> cancelled t (fold stopOne es w)"
  by (induction es arbitrary: w) (simp_all add: cancelled_stopOne)

lemma cancelled_step: "cancelled t w \<Longrightarrow> cancelled t (step e w)"
  by (cases e)
    (simp_all add: cancelled_stopStream cancelled_fold_stopOne stopAllStreams_def
      cancelled_procClose cancelled_timerFire,
     simp_all add: cancelled_def)

lemma cancelled_run: "cancelled t w \<Longrightarrow> cancelled t (run evs w)"
  unfolding run_def by (induction evs arbitrary: w) (simp_all add: cancelled_step)

lemmas eval_defs = run_def init_world_def startStream_def spawnFfmpeg_def update_state_def
  procClose_def onClose_def setTimeout_def clearTimeout_def kill_def timerFire_def
  stopStream_def cancelReconnect_def interrupt_def addCloseListener_def
  stopAllStreams_def stopOne_def clearReconnect_def forceKill_def onData_def
  MAX_RECONNECT_ATTEMPTS_def Let_def

section \<open>The example runs, evaluated\<close>

lemma w_running_eq:
  "w_running =
     \<lparr>activeStreams = [(''s1'', 0)],
      heap = [\<lparr>process = Some 0, status = Running, startedAt = 0, reconnectAttempts = 0,
               reconnectTimer = None, stats = \<lparr>time = ''00:00:00'', stats_loopCount = 1\<rparr>,
               config = cfg_loop3\<rparr>],
      procs = [\<lparr>spawnargs = buildFfmpegArgs ''clip.mp4'' cfg_loop3, killed = False,
                exited = False, signals = [], cl_streamId = ''s1'', cl_filePath = ''clip.mp4'',
                cl_config = cfg_loop3, cl_state = 0, closeClears = []\<rparr>],
      timers = []\<rparr>"
  by (simp add: w_running_def eval_defs)

lemma w_reconnecting_eq:
  "w_reconnecting =
     \<lparr>activeStreams = [(''s1'', 0)],
      heap = [\<lparr>process = Some 0, status = Reconnecting, startedAt = 0, reconnectAttempts = 1,
               reconnectTimer = Some 0, stats = \<lparr>time = ''00:00:00'', stats_loopCount = 1\<rparr>,
               config = cfg_loop3\<rparr>],
      procs = [\<lparr>spawnargs = buildFfmpegArgs ''clip.mp4'' cfg_loop3, killed = False,
                exited = True, signals = [], cl_streamId = ''s1'', cl_filePath = ''clip.mp4'',
                cl_config = cfg_loop3, cl_state = 0, closeClears = []\<rparr>],
      timers = [\<lparr>callback = Relaunch ''s1'' ''clip.mp4'' cfg_loop3 0, pending = True\<rparr>]\<rparr>"
  by (simp add: w_reconnecting_def w_running_eq eval_defs)

section \<open>Terminal states and the stop request\<close>

lemma step_registry:
  "\<not> starts i e \<Longrightarrow> map_of (activeStreams (step e w)) i = map_of (activeStreams w) i"
  by (cases e) (simp_all add: update_conv' stopAllStreams_def)

lemma run_registry:
  "\<forall>e\<in>set evs. \<not> starts i e \<Longrightarrow>
     map_of (activeStreams (run evs w)) i = map_of (activeStreams w) i"
  unfolding run_def by (induction evs arbitrary: w) (simp_all add: step_registry)

text \<open>
  Claim C4. Once the status of a stream state is \<open>Stopped\<close>, \<open>Completed\<close> or \<open>Error\<close>,
  no sequence of events changes it: not a process exit, a timer firing, \<open>stopStream\<close> or
  \<open>stopAllStreams\<close>, nor progress output or the start of a stream (which makes a state
  object of its own). As long as the identifier is not started again, it stays bound
  to that state and \<open>getStreamStatus\<close> reports the same status.
\<close>

theorem terminal_status_is_final:
  assumes "r < length (heap w)" and "terminal (status (heap w ! r))"
  shows "status (heap (run evs w) ! r) = status (heap w ! r)
    \<and> ((\<forall>e\<in>set evs. \<not> starts i e) \<and> map_of (activeStreams w) i = Some r \<longrightarrow>
         rep_status (getStreamStatus (run evs w) i) = rep_status (getStreamStatus w i))"
proof -
  from run_terminal [OF assms, of evs]
  have s: "status (heap (run evs w) ! r) = status (heap w ! r)" by simp
  have "rep_status (getStreamStatus (run evs w) i) = rep_status (getStreamStatus w i)"
    if "\<forall>e\<in>set evs. \<not> starts i e" and "map_of (activeStreams w) i = Some r"
  proof -
    from that have "map_of (activeStreams (run evs w)) i = Some r"
      by (simp add: run_registry)
    with that(2) s show ?thesis by (simp add: getStreamStatus_def Let_def)
  qed
  with s show ?thesis by blast
qed

lemma w_stopped_eq:
  "w_stopped =
     \<lparr>activeStreams = [(''s1'', 0)],
      heap = [\<lparr>process = Some 0, status = Stopped, startedAt = 0, reconnectAttempts = 1,
               reconnectTimer = None, stats = \<lparr>time = ''00:00:00'', stats_loopCount = 1\<rparr>,
               config = cfg_loop3\<rparr>],
      procs = [\<lparr>spawnargs = buildFfmpegArgs ''clip.mp4'' cfg_loop3, killed = False,
                exited = True, signals = [], cl_streamId = ''s1'', cl_filePath = ''clip.mp4'',
                cl_config = cfg_loop3, cl_state = 0, closeClears = [1]\<rparr>],
      timers = [\<lparr>callback = Relaunch ''s1'' ''clip.mp4'' cfg_loop3 0, pending = False\<rparr>,
                \<lparr>callback = ForceKill 0, pending = True\<rparr>]\<rparr>"
  by (simp add: w_stopped_def w_reconnecting_eq eval_defs)

theorem terminal_status_is_final_witness:
  "0 < length (heap w_stopped) \<and> terminal (status (heap w_stopped ! 0))
   \<and> list_all (\<lambda>e. \<not> starts ''s1'' e) evs_after_stop
   \<and> map_of (activeStreams w_stopped) ''s1'' = Some 0
   \<and> status (heap (run evs_after_stop w_stopped) ! 0) = Stopped
   \<and> rep_status (getStreamStatus (run evs_after_stop w_stopped) ''s1'') = ''stopped''"
proof -
  have h: "0 < length (heap w_stopped)" "terminal (status (heap w_stopped ! 0))"
    by (simp_all add: w_stopped_eq terminal_def)
  have e: "\<forall>e\<in>set evs_after_stop. \<not> starts ''s1'' e"
    by (simp add: evs_after_stop_def)
  have m: "map_of (activeStreams w_stopped) ''s1'' = Some 0"
    by (simp add: w_stopped_eq)
  have s: "status (heap w_stopped ! 0) = Stopped"
    "rep_status (getStreamStatus w_stopped ''s1'') = ''stopped''"
    by (simp_all add: w_stopped_eq getStreamStatus_def)
  from terminal_status_is_final [OF h, of evs_after_stop "''s1''"] h e m s
  show ?thesis by (simp add: list_all_iff)
qed

text \<open>
  Claim C2. For a stream in status \<open>Reconnecting\<close> whose relaunch timer \<open>t\<close> is pending,
  \<open>stopStream\<close> returns true and records \<open>Stopped\<close>; after any later events \<open>evs\<close> the
  timer is not pending, the number of processes spawned for the stream is what it was
  before the stop, and the body of a relaunch callback for that stream, were it to
  run all the same, changes nothing (the status check of line 166).
\<close>

theorem stop_cancels_pending_relaunch:
  assumes "map_of (activeStreams w) i = Some r" and "r < length (heap w)"
    and "status (heap w ! r) = Reconnecting"
    and "reconnectTimer (heap w ! r) = Some t"
    and "t < length (timers w)" and "pending (timers w ! t)"
  shows "fst (stopStream i w) = True
    \<and> status (heap (snd (stopStream i w)) ! r) = Stopped
    \<and> \<not> pending (timers (run evs (snd (stopStream i w))) ! t)
    \<and> spawned_for r (run evs (snd (stopStream i w))) = spawned_for r w
    \<and> runCallback (Relaunch i' f c r) (run evs (snd (stopStream i w)))
        = run evs (snd (stopStream i w))"
proof -
  let ?w1 = "update_state r (\<lambda>s. s\<lparr>status := Stopped\<rparr>) w"
  let ?w' = "snd (stopStream i w)"
  from assms(3) have st: "stoppable w r" by (simp add: stoppable_def)
  note app = stopStream_applied [OF assms(1) st]
  from app have ret: "fst (stopStream i w) = True" by simp
  from app assms(2) have stopped: "status (heap ?w' ! r) = Stopped"
    by (simp add: cancelReconnect_nth update_state_nth)
  from assms(2) have len: "r < length (heap ?w')" by simp
  from stopped have tm: "terminal (status (heap ?w' ! r))" by (simp add: terminal_def)
  note inv = run_terminal [OF len tm, of evs]
  from assms(2,4) have "reconnectTimer (heap ?w1 ! r) = Some t" by (simp add: update_state_nth)
  then have "cancelReconnect r ?w1 =
      update_state r (\<lambda>s. s\<lparr>reconnectTimer := None\<rparr>) (clearTimeout t ?w1)"
    by (simp add: cancelReconnect_def)
  with assms(5) have "cancelled t (cancelReconnect r ?w1)"
    by (simp add: cancelled_def clearTimeout_nth)
  then have "cancelled t ?w'" unfolding app snd_conv by (rule cancelled_interrupt)
  then have c: "cancelled t (run evs ?w')" by (rule cancelled_run)
  from inv stopped have "status (heap (run evs ?w') ! r) \<noteq> Reconnecting" by simp
  then have cb: "runCallback (Relaunch i' f c r) (run evs ?w') = run evs ?w'" by simp
  have "spawned_for r ?w' = spawned_for r w" by (simp add: spawned_for_owners)
  with inv have sp: "spawned_for r (run evs ?w') = spawned_for r w" by simp
  from ret stopped c sp cb show ?thesis by (simp add: cancelled_def)
qed

theorem stop_cancels_pending_relaunch_witness:
  "map_of (activeStreams w_reconnecting) ''s1'' = Some 0 \<and> 0 < length (heap w_reconnecting)
   \<and> status (heap w_reconnecting ! 0) = Reconnecting
   \<and> reconnectTimer (heap w_reconnecting ! 0) = Some 0
   \<and> 0 < length (timers w_reconnecting) \<and> pending (timers w_reconnecting ! 0)
   \<and> fst (stopStream ''s1'' w_reconnecting) = True
   \<and> \<not> pending (timers (run evs_after_stop (snd (stopStream ''s1'' w_reconnecting))) ! 0)
   \<and> spawned_for 0 (run evs_after_stop (snd (stopStream ''s1'' w_reconnecting))) = 1"
proof -
  have h: "map_of (activeStreams w_reconnecting) ''s1'' = Some 0"
    "0 < length (heap w_reconnecting)"
    "status (heap w_reconnecting ! 0) = Reconnecting"
    "reconnectTimer (heap w_reconnecting ! 0) = Some 0"
    "0 < length (timers w_reconnecting)" "pending (timers w_reconnecting ! 0)"
    by (simp_all add: w_reconnecting_eq)
  have n: "spawned_for 0 w_reconnecting = 1"
    by (simp add: w_reconnecting_eq spawned_for_def)
  from stop_cancels_pending_relaunch [OF h, of evs_after_stop "''s1''" "''clip.mp4''" cfg_loop3]
    h n
  show ?thesis by simp
qed

section \<open>Progress and the loop count\<close>

lemma timeMatch_found:
  "time_at (drop k out) \<Longrightarrow> timeMatch out \<noteq> None"
proof (induction out arbitrary: k)
  case Nil
  then show ?case by (simp add: time_at_def)
next
  case (Cons ch cs)
  show ?case
  proof (cases k)
    case 0
    with Cons.prems show ?thesis by simp
  next
    case (Suc j)
    with Cons.prems have "time_at (drop j cs)" by simp
    from Cons.IH [OF this] show ?thesis by simp
  qed
qed

text \<open>
  Claim C8. A chunk of progress output of a live process in which \<open>timeMatch\<close> finds
  the marker \<open>t\<close>, with a configured clip window (\<open>endTime\<close> present and not zero,
  \<open>startTime\<close> present) of positive length, sets \<open>stats.time\<close> to \<open>t\<close> and
  \<open>stats.loopCount\<close> to the floor of the elapsed seconds over the clip length, plus one.
  With \<^verbatim>\<open>00:01:30\<close> and a window of 45 seconds that is 3 (the witness).
\<close>

theorem progress_derives_loop_count:
  assumes "p < length (procs w)" and "\<not> exited (procs w ! p)"
    and "cl_state (procs w ! p) = r" and "r < length (heap w)"
    and "timeMatch output = Some t"
    and "endTime (cl_config (procs w ! p)) = Some e" and "e \<noteq> 0"
    and "startTime (cl_config (procs w ! p)) = Some s" and "e - s > 0"
  shows "time (stats (heap (step (ProcData p output) w) ! r)) = t
    \<and> stats_loopCount (stats (heap (step (ProcData p output) w) ! r))
        = \<lfloor>real_of_int (elapsed t) / real_of_int (e - s)\<rfloor> + 1"
proof -
  let ?s = "heap (step (ProcData p output) w) ! r"
  from assms have T: "time (stats ?s) = t"
    and L: "stats_loopCount (stats ?s) = elapsed t div (e - s) + 1"
    by (simp_all add: onData_def update_state_nth progress_def truthy_num_def Let_def)
  have F: "\<lfloor>real_of_int (elapsed t) / real_of_int (e - s)\<rfloor> = elapsed t div (e - s)"
    by (rule floor_divide_of_int_eq)
  from T L show ?thesis unfolding F by blast
qed

lemma timeMatch_chunk_0130: "timeMatch chunk_0130 = Some ''00:01:30''"
  by code_simp

lemma elapsed_0130: "elapsed ''00:01:30'' = 90"
  by code_simp

theorem progress_derives_loop_count_witness:
  "0 < length (procs w_running) \<and> \<not> exited (procs w_running ! 0)
   \<and> cl_state (procs w_running ! 0) = 0 \<and> 0 < length (heap w_running)
   \<and> timeMatch chunk_0130 = Some ''00:01:30''
   \<and> endTime (cl_config (procs w_running ! 0)) = Some 55 \<and> (55::int) \<noteq> 0
   \<and> startTime (cl_config (procs w_running ! 0)) = Some 10 \<and> (55::int) - 10 > 0
   \<and> elapsed ''00:01:30'' = 90
   \<and> time (stats (heap (step (ProcData 0 chunk_0130) w_running) ! 0)) = ''00:01:30''
   \<and> stats_loopCount (stats (heap (step (ProcData 0 chunk_0130) w_running) ! 0)) = 3"
proof -
  have h: "0 < length (procs w_running)" "\<not> exited (procs w_running ! 0)"
    "cl_state (procs w_running ! 0) = 0" "0 < length (heap w_running)"
    "timeMatch chunk_0130 = Some ''00:01:30''"
    "endTime (cl_config (procs w_running ! 0)) = Some 55" "(55::int) \<noteq> 0"
    "startTime (cl_config (procs w_running ! 0)) = Some 10" "(55::int) - 10 > 0"
    by (simp_all add: w_running_eq timeMatch_chunk_0130 cfg_loop3_def)
  have "\<lfloor>real_of_int 90 / real_of_int (55 - 10)\<rfloor> + 1 = (3::int)" by simp
  with progress_derives_loop_count [OF h] h elapsed_0130 show ?thesis by simp
qed

section \<open>The status report\<close>

lemma status_string_cases:
  "status_string st \<in> set [''running'', ''reconnecting'', ''stopped'', ''completed'', ''error'']"
  by (cases st) simp_all

lemma getStreamStatus_known:
  assumes "map_of (activeStreams w) i = Some r"
  shows "getStreamStatus w i =
     \<lparr>rep_status = (if status (heap w ! r) = Reconnecting then ''running''
                     else status_string (status (heap w ! r))),
      reconnecting = Some (status (heap w ! r) = Reconnecting),
      reconnectAttempt = Some (reconnectAttempts (heap w ! r)),
      rep_stats = \<lparr>rep_time = Some (time (stats (heap w ! r))),
                   rep_loopCount = Some (stats_loopCount (stats (heap w ! r)))\<rparr>\<rparr>"
  using assms by (simp add: getStreamStatus_def Let_def)

lemma getStreamStatus_unknown:
  "map_of (activeStreams w) i = None \<Longrightarrow> getStreamStatus w i = not_found_report"
  by (simp add: getStreamStatus_def not_found_report_def)

text \<open>
  Claim C6, as amended. For an identifier in the registry the report has all four
  fields: a status among running, stopped, completed and error, the reconnecting
  flag, the attempt counter and a copy of the stats; a stream whose status is
  \<open>Reconnecting\<close> is reported as running with the flag set. For an identifier never
  passed to \<open>startStream\<close> the report is the object of line 243: status
  \<^verbatim>\<open>not_found\<close>, empty stats, and neither a reconnecting flag nor an attempt counter.
\<close>

theorem status_report_shape:
  "(map_of (activeStreams w) i = Some r \<longrightarrow>
      has_all_fields (getStreamStatus w i)
      \<and> rep_status (getStreamStatus w i) \<in> set [''running'', ''stopped'', ''completed'', ''error'']
      \<and> reconnectAttempt (getStreamStatus w i) = Some (reconnectAttempts (heap w ! r))
      \<and> rep_stats (getStreamStatus w i) =
          \<lparr>rep_time = Some (time (stats (heap w ! r))),
           rep_loopCount = Some (stats_loopCount (stats (heap w ! r)))\<rparr>
      \<and> (status (heap w ! r) = Reconnecting \<longrightarrow>
           rep_status (getStreamStatus w i) = ''running''
           \<and> reconnecting (getStreamStatus w i) = Some True)
      \<and> (status (heap w ! r) \<noteq> Reconnecting \<longrightarrow>
           rep_status (getStreamStatus w i) = status_string (status (heap w ! r))
           \<and> reconnecting (getStreamStatus w i) = Some False))
   \<and> ((\<forall>e\<in>set evs. \<not> starts i e) \<longrightarrow>
        getStreamStatus (run evs init_world) i = not_found_report
        \<and> \<not> has_all_fields (getStreamStatus (run evs init_world) i))"
proof -
  have nf: "getStreamStatus (run evs init_world) i = not_found_report
        \<and> \<not> has_all_fields (getStreamStatus (run evs init_world) i)"
    if "\<forall>e\<in>set evs. \<not> starts i e"
  proof -
    from that have "map_of (activeStreams (run evs init_world)) i = None"
      by (simp add: run_registry init_world_def)
    then show ?thesis
      by (simp add: getStreamStatus_unknown) (simp add: not_found_report_def has_all_fields_def)
  qed
  have k: "has_all_fields (getStreamStatus w i)
      \<and> rep_status (getStreamStatus w i) \<in> set [''running'', ''stopped'', ''completed'', ''error'']
      \<and> reconnectAttempt (getStreamStatus w i) = Some (reconnectAttempts (heap w ! r))
      \<and> rep_stats (getStreamStatus w i) =
          \<lparr>rep_time = Some (time (stats (heap w ! r))),
           rep_loopCount = Some (stats_loopCount (stats (heap w ! r)))\<rparr>
      \<and> (status (heap w ! r) = Reconnecting \<longrightarrow>
           rep_status (getStreamStatus w i) = ''running''
           \<and> reconnecting (getStreamStatus w i) = Some True)
      \<and> (status (heap w ! r) \<noteq> Reconnecting \<longrightarrow>
           rep_status (getStreamStatus w i) = status_string (status (heap w ! r))
           \<and> reconnecting (getStreamStatus w i) = Some False)"
    if "map_of (activeStreams w) i = Some r"
    using getStreamStatus_known [OF that]
    by (cases "status (heap w ! r)") (simp_all add: has_all_fields_def)
  from k nf show ?thesis by blast
qed

text \<open>The report for an unknown identifier has two of the four fields only.\<close>

theorem not_found_lacks_fields:
  "\<not> has_all_fields (getStreamStatus init_world ''s1'')"
  by (simp add: getStreamStatus_def init_world_def has_all_fields_def)

theorem status_report_shape_witness:
  "map_of (activeStreams w_reconnecting) ''s1'' = Some 0
   \<and> status (heap w_reconnecting ! 0) = Reconnecting
   \<and> list_all (\<lambda>e. \<not> starts ''s2'' e) [Start ''s1'' ''clip.mp4'' cfg_loop3 0, ProcClose 0 (Some 1)]
   \<and> has_all_fields (getStreamStatus w_reconnecting ''s1'')
   \<and> rep_status (getStreamStatus w_reconnecting ''s1'') = ''running''
   \<and> reconnecting (getStreamStatus w_reconnecting ''s1'') = Some True
   \<and> reconnectAttempt (getStreamStatus w_reconnecting ''s1'') = Some 1
   \<and> getStreamStatus (run [Start ''s1'' ''clip.mp4'' cfg_loop3 0, ProcClose 0 (Some 1)] init_world) ''s2''
       = not_found_report"
proof -
  have h: "map_of (activeStreams w_reconnecting) ''s1'' = Some 0"
    "status (heap w_reconnecting ! 0) = Reconnecting"
    "reconnectAttempts (heap w_reconnecting ! 0) = 1"
    by (simp_all add: w_reconnecting_eq)
  have e: "\<forall>e\<in>set [Start ''s1'' ''clip.mp4'' cfg_loop3 0, ProcClose 0 (Some 1)]. \<not> starts ''s2'' e"
    by simp
  from status_report_shape [of w_reconnecting "''s1''" 0
      "[Start ''s1'' ''clip.mp4'' cfg_loop3 0, ProcClose 0 (Some 1)]"]
    status_report_shape [of w_reconnecting "''s2''" 0
      "[Start ''s1'' ''clip.mp4'' cfg_loop3 0, ProcClose 0 (Some 1)]"] h e
  show ?thesis by (simp add: list_all_iff)
qed

section \<open>The invariant\<close>

lemma quiet_refl [simp]: "quiet w w"
  by (simp add: quiet_def)

lemma quiet_trans: "quiet w w' \<Longrightarrow> quiet w' w'' \<Longrightarrow> quiet w w''"
  by (simp add: quiet_def)

lemma length_handles [simp]: "length (handles w) = length (heap w)"
  by (simp add: handles_def)

lemma length_owners [simp]: "length (owners w) = length (procs w)"
  by (simp add: owners_def)

lemma length_listeners [simp]: "length (listeners w) = length (procs w)"
  by (simp add: listeners_def)

lemma processes_owned_alt:
  "processes_owned w \<longleftrightarrow>
     (\<forall>r<length (handles w). \<forall>p. handles w ! r = Some p \<longrightarrow>
        p < length (owners w) \<and> owners w ! p = r)"
  by (auto simp: processes_owned_def handles_def owners_def split: option.splits)

lemma listeners_bounded_alt:
  "listeners_bounded w \<longleftrightarrow>
     (\<forall>p<length (listeners w). \<forall>t\<in>set (listeners w ! p). t < length (timers w))"
  by (auto simp: listeners_bounded_def listeners_def)

lemma registry_ok_alt:
  "registry_ok w \<longleftrightarrow>
     distinct (map fst (activeStreams w)) \<and> distinct (map snd (activeStreams w))
     \<and> (\<forall>r\<in>set (map snd (activeStreams w)). r < length (handles w))"
  by (simp add: registry_ok_def)

lemma wf_quiet: "quiet w w' \<Longrightarrow> wf_world w \<Longrightarrow> wf_world w'"
  unfolding wf_world_def registry_ok_alt processes_owned_alt listeners_bounded_alt quiet_def
  by (metis order_less_le_trans)

lemma quiet_update_state:
  "(\<And>s. process (f s) = process s) \<Longrightarrow> quiet w (update_state r f w)"
  by (simp add: quiet_def handles_def listeners_def update_state_def map_update_same)

lemma quiet_clearTimeout: "quiet w (clearTimeout t w)"
  by (simp add: quiet_def handles_def listeners_def)

lemma quiet_setTimeout: "quiet w (snd (setTimeout cb w))"
  by (simp add: quiet_def handles_def listeners_def)

lemma quiet_kill: "quiet w (kill p sg w)"
  by (simp add: quiet_def handles_def) (simp add: listeners_def kill_def map_update_same)

lemma quiet_fold_clearTimeout: "quiet w (fold clearTimeout ts w)"
  by (simp add: quiet_def handles_def listeners_def owners_def)

lemma quiet_onData: "quiet w (onData p out w)"
  by (simp add: onData_def quiet_update_state progress_def Let_def split: option.splits)

lemma quiet_reschedule:
  "(\<And>s. process (f s) = process s) \<Longrightarrow> (\<And>s. process (g s) = process s) \<Longrightarrow>
     quiet w (update_state r' g (snd (setTimeout cb (update_state r f w))))"
  by (rule quiet_trans [OF quiet_update_state quiet_trans [OF quiet_setTimeout quiet_update_state]])

lemma quiet_onClose: "quiet w (onClose p code w)"
  by (auto simp: onClose_def Let_def split_def intro!: quiet_update_state quiet_reschedule)

lemma quiet_exited: "quiet w (w\<lparr>procs := (procs w)[p := (procs w ! p)\<lparr>exited := True\<rparr>]\<rparr>)"
  by (simp add: quiet_def handles_def listeners_def owners_def map_update_same)

lemma quiet_procClose: "quiet w (procClose p code w)"
  unfolding procClose_def
  by (auto intro: quiet_trans [OF quiet_exited quiet_trans [OF quiet_onClose quiet_fold_clearTimeout]])

lemma quiet_cancelReconnect: "quiet w (cancelReconnect r w)"
  unfolding cancelReconnect_def
  by (auto split: option.splits intro!: quiet_trans [OF quiet_clearTimeout quiet_update_state])

lemma quiet_clearReconnect: "quiet w (clearReconnect r w)"
  by (simp add: clearReconnect_def quiet_clearTimeout split: option.splits)

lemma quiet_forceKill: "quiet w (forceKill r w)"
  by (simp add: forceKill_def quiet_kill split: option.splits)

lemma quiet_stopOne: "quiet w (stopOne e w)"
  unfolding stopOne_def Let_def
  by (auto intro!: quiet_trans [OF quiet_clearReconnect quiet_trans [OF quiet_forceKill quiet_update_state]])

lemma quiet_fold_stopOne: "quiet w (fold stopOne es w)"
proof (induction es arbitrary: w)
  case Nil
  show ?case by simp
next
  case (Cons e es)
  from quiet_trans [OF quiet_stopOne Cons.IH] show ?case by simp
qed

lemma registry_ok_same:
  "activeStreams w' = activeStreams w \<Longrightarrow> length (heap w) \<le> length (heap w') \<Longrightarrow>
     registry_ok w \<Longrightarrow> registry_ok w'"
  by (auto simp: registry_ok_def)

lemma listeners_bounded_same:
  "procs w' = procs w \<Longrightarrow> length (timers w) \<le> length (timers w') \<Longrightarrow>
     listeners_bounded w \<Longrightarrow> listeners_bounded w'"
  unfolding listeners_bounded_def by (metis order_less_le_trans)

lemma nth_update_if: "xs[i := x] ! j = (if i = j \<and> i < length xs then x else xs ! j)"
  by (cases "i < length xs") (auto simp: nth_list_update list_update_beyond)

lemma spawnFfmpeg_handles:
  "handles (spawnFfmpeg i f c r w) = (handles w)[r := Some (length (procs w))]"
  by (simp add: handles_def spawnFfmpeg_def Let_def update_state_def map_update)

lemma spawnFfmpeg_listeners: "listeners (spawnFfmpeg i f c r w) = listeners w @ [[]]"
  by (simp add: listeners_def spawnFfmpeg_def Let_def)

lemma wf_spawnFfmpeg:
  assumes "wf_world w"
  shows "wf_world (spawnFfmpeg i f c r w)"
proof -
  let ?w' = "spawnFfmpeg i f c r w"
  from assms have "registry_ok ?w'"
    by (auto simp: wf_world_def intro: registry_ok_same)
  moreover from assms have "processes_owned ?w'"
    unfolding wf_world_def processes_owned_alt spawnFfmpeg_handles
    by (auto simp: nth_update_if nth_append less_Suc_eq split: if_splits)
  moreover from assms have "listeners_bounded ?w'"
    unfolding wf_world_def listeners_bounded_alt spawnFfmpeg_listeners
    by (auto simp: nth_append)
  ultimately show ?thesis by (simp add: wf_world_def)
qed

lemma addCloseListener_listeners:
  "listeners (addCloseListener p t w) = (listeners w)[p := listeners w ! p @ [t]]"
  by (cases "p < length (procs w)")
    (simp_all add: listeners_def addCloseListener_def map_update list_update_beyond)

lemma handles_addCloseListener [simp]: "handles (addCloseListener p t w) = handles w"
  by (simp add: handles_def)

lemma wf_addCloseListener:
  assumes "wf_world w" and "t < length (timers w)"
  shows "wf_world (addCloseListener p t w)"
proof -
  let ?w' = "addCloseListener p t w"
  from assms have "registry_ok ?w'"
    by (auto simp: wf_world_def intro: registry_ok_same)
  moreover from assms have "processes_owned ?w'"
    unfolding wf_world_def processes_owned_alt by simp
  moreover from assms have "listeners_bounded ?w'"
    unfolding wf_world_def listeners_bounded_alt addCloseListener_listeners
    by (auto simp: nth_update_if split: if_splits)
  ultimately show ?thesis by (simp add: wf_world_def)
qed

lemma wf_interrupt:
  assumes "wf_world w"
  shows "wf_world (interrupt r w)"
proof (cases "process (heap w ! r)")
  case None
  with assms show ?thesis by (simp add: interrupt_def)
next
  case (Some p)
  show ?thesis
  proof (cases "killed (procs w ! p)")
    case True
    with Some assms show ?thesis by (simp add: interrupt_def)
  next
    case False
    let ?w1 = "snd (setTimeout (ForceKill r) (kill p SIGINT w))"
    from assms have "wf_world ?w1"
      by (intro wf_quiet [OF quiet_setTimeout] wf_quiet [OF quiet_kill])
    then have "wf_world (addCloseListener p (length (timers w)) ?w1)"
      by (rule wf_addCloseListener) simp
    with Some False show ?thesis by (simp add: interrupt_def split_def)
  qed
qed

lemma wf_stopStream: "wf_world w \<Longrightarrow> wf_world (snd (stopStream i w))"
  by (auto simp: stopStream_def split: option.splits
      intro!: wf_interrupt wf_quiet [OF quiet_cancelReconnect] wf_quiet [OF quiet_update_state])

lemma wf_runCallback: "wf_world w \<Longrightarrow> wf_world (runCallback cb w)"
  by (cases cb) (auto split: option.splits intro: wf_spawnFfmpeg wf_quiet [OF quiet_kill])

lemma wf_timerFire: "wf_world w \<Longrightarrow> wf_world (timerFire t w)"
  by (auto simp: timerFire_def intro!: wf_runCallback wf_quiet [OF quiet_clearTimeout])

lemma values_update: "set (map snd (AList.update k v al)) \<subseteq> insert v (set (map snd al))"
  by (induction al) auto

lemma distinct_values_update:
  "distinct (map snd al) \<Longrightarrow> v \<notin> set (map snd al) \<Longrightarrow> distinct (map snd (AList.update k v al))"
proof (induction al)
  case Nil
  then show ?case by simp
next
  case (Cons a al)
  from values_update [of k v al] Cons show ?case by (cases a) auto
qed

lemma wf_startStream:
  assumes "wf_world w"
  shows "wf_world (snd (startStream i f c now w))"
proof -
  let ?s = "\<lparr>process = None, status = Running, startedAt = now, reconnectAttempts = 0,
             reconnectTimer = None, stats = \<lparr>time = ''00:00:00'', stats_loopCount = 1\<rparr>,
             config = c\<rparr>"
  let ?w1 = "w\<lparr>heap := heap w @ [?s],
               activeStreams := AList.update i (length (heap w)) (activeStreams w)\<rparr>"
  from assms have fresh: "length (heap w) \<notin> set (map snd (activeStreams w))"
    by (auto simp: wf_world_def registry_ok_def)
  have "r < Suc (length (heap w))"
    if "r \<in> set (map snd (AList.update i (length (heap w)) (activeStreams w)))" for r
  proof -
    from that values_update [of i "length (heap w)" "activeStreams w"]
    have "r = length (heap w) \<or> r \<in> set (map snd (activeStreams w))" by blast
    with assms show ?thesis by (auto simp: wf_world_def registry_ok_def)
  qed
  with assms fresh have "registry_ok ?w1"
    unfolding wf_world_def registry_ok_def
    by (simp add: distinct_update distinct_values_update del: set_map)
  moreover from assms have "processes_owned ?w1"
    by (auto simp: wf_world_def processes_owned_def nth_append less_Suc_eq
        split: option.splits)
  moreover from assms have "listeners_bounded ?w1"
    by (auto simp: wf_world_def listeners_bounded_def)
  ultimately have "wf_world ?w1" by (simp add: wf_world_def)
  then have "wf_world (spawnFfmpeg i f c (length (heap w)) ?w1)" by (rule wf_spawnFfmpeg)
  then show ?thesis by (simp add: startStream_def Let_def)
qed

lemma wf_init: "wf_world init_world"
  by (simp add: wf_world_def registry_ok_def processes_owned_def listeners_bounded_def
      init_world_def)

lemma wf_step: "wf_world w \<Longrightarrow> wf_world (step e w)"
  by (cases e)
    (auto simp: stopAllStreams_def
      intro: wf_startStream wf_stopStream wf_timerFire wf_quiet [OF quiet_fold_stopOne]
        wf_quiet [OF quiet_onData] wf_quiet [OF quiet_procClose])

lemma wf_run: "wf_world w \<Longrightarrow> wf_world (run evs w)"
  unfolding run_def by (induction evs arbitrary: w) (simp_all add: wf_step)

section \<open>Replaced stream states\<close>

lemma orphan_same:
  "activeStreams w' = activeStreams w \<Longrightarrow> length (heap w') = length (heap w) \<Longrightarrow>
     orphan r w \<Longrightarrow> orphan r w'"
  by (simp add: orphan_def)

lemma orphan_step: "orphan r w \<Longrightarrow> orphan r (step e w)"
proof (cases e)
  case (Start i f c now)
  assume o: "orphan r w"
  with values_update [of i "length (heap w)" "activeStreams w"]
  have "r \<notin> set (map snd (AList.update i (length (heap w)) (activeStreams w)))"
    by (auto simp: orphan_def)
  with o Start show ?thesis by (simp add: orphan_def del: set_map)
qed (auto intro: orphan_same simp: stopAllStreams_def)

lemma orphan_run: "orphan r w \<Longrightarrow> orphan r (run evs w)"
  unfolding run_def by (induction evs arbitrary: w) (simp_all add: orphan_step)

lemma kill_other: "q \<noteq> p \<Longrightarrow> procs (kill p sg w) ! q = procs w ! q"
  by (simp add: kill_def)

lemma addCloseListener_other: "q \<noteq> p \<Longrightarrow> procs (addCloseListener p t w) ! q = procs w ! q"
  by (simp add: addCloseListener_def)

lemma interrupt_other:
  "process (heap w ! r) = Some p \<Longrightarrow> q \<noteq> p \<Longrightarrow> procs (interrupt r w) ! q = procs w ! q"
  by (simp add: interrupt_def split_def addCloseListener_other kill_other)

lemma interrupt_none: "process (heap w ! r) = None \<Longrightarrow> interrupt r w = w"
  by (simp add: interrupt_def)

lemma forceKill_other:
  "process (heap w ! r) = Some p \<Longrightarrow> q \<noteq> p \<Longrightarrow> procs (forceKill r w) ! q = procs w ! q"
  by (simp add: forceKill_def kill_other)

lemma forceKill_none: "process (heap w ! r) = None \<Longrightarrow> forceKill r w = w"
  by (simp add: forceKill_def)

lemma owned_process:
  "processes_owned w \<Longrightarrow> r < length (heap w) \<Longrightarrow> process (heap w ! r) = Some p \<Longrightarrow>
     p < length (procs w) \<and> cl_state (procs w ! p) = r"
  by (auto simp: processes_owned_def split: option.splits)

lemma stopStream_spares:
  assumes "processes_owned w" and "map_of (activeStreams w) i = Some r'"
    and "r' < length (heap w)" and "r' \<noteq> r"
  shows "untouched r w (snd (stopStream i w))"
proof (cases "stoppable w r'")
  case False
  with assms(2) show ?thesis by (simp add: stopStream_refused untouched_def)
next
  case True
  let ?w2 = "cancelReconnect r' (update_state r' (\<lambda>s. s\<lparr>status := Stopped\<rparr>) w)"
  note app = stopStream_applied [OF assms(2) True]
  from assms(2,4) have h: "heap (snd (stopStream i w)) ! r = heap w ! r"
    by (simp add: stopStream_other)
  have pr: "process (heap ?w2 ! r') = process (heap w ! r')"
    by (simp add: cancelReconnect_nth update_state_nth)
  have "procs (interrupt r' ?w2) ! q = procs w ! q"
    if "q < length (procs w)" "cl_state (procs w ! q) = r" for q
  proof (cases "process (heap w ! r')")
    case None
    with pr show ?thesis by (simp add: interrupt_none)
  next
    case (Some p)
    from owned_process [OF assms(1,3) Some] that(2) assms(4) have "q \<noteq> p" by auto
    from interrupt_other [OF _ this, of ?w2 r'] pr Some show ?thesis by simp
  qed
  with h app show ?thesis by (simp add: untouched_def)
qed

lemma stopOne_spares:
  assumes "processes_owned w" and "snd e < length (heap w)" and "snd e \<noteq> r"
  shows "untouched r w (stopOne e w)"
proof (cases "stoppable w (snd e)")
  case False
  then show ?thesis by (simp add: stopOne_refused untouched_def)
next
  case True
  let ?w1 = "clearReconnect (snd e) w"
  from assms(3) have h: "heap (stopOne e w) ! r = heap w ! r" by (simp add: stopOne_other)
  have "procs (forceKill (snd e) ?w1) ! q = procs w ! q"
    if "q < length (procs w)" "cl_state (procs w ! q) = r" for q
  proof (cases "process (heap w ! snd e)")
    case None
    then show ?thesis by (simp add: forceKill_none)
  next
    case (Some p)
    from owned_process [OF assms(1,2) Some] that(2) assms(3) have "q \<noteq> p" by auto
    from forceKill_other [OF _ this, of ?w1 "snd e"] Some show ?thesis by simp
  qed
  with h True show ?thesis by (simp add: untouched_def stopOne_def stoppable_def Let_def)
qed

lemma untouched_trans:
  assumes "untouched r w w'" and "untouched r w' w''"
    and "length (procs w') = length (procs w)" and "owners w' = owners w"
  shows "untouched r w w''"
proof -
  have "cl_state (procs w' ! p) = cl_state (procs w ! p)" if "p < length (procs w)" for p
  proof -
    from that assms(3) have "owners w' ! p = cl_state (procs w' ! p)"
      "owners w ! p = cl_state (procs w ! p)" by (simp_all add: owners_def)
    with assms(4) show ?thesis by simp
  qed
  with assms show ?thesis by (auto simp: untouched_def)
qed

lemma po_quiet: "quiet w w' \<Longrightarrow> processes_owned w \<Longrightarrow> processes_owned w'"
  unfolding processes_owned_alt quiet_def by simp

lemma fold_stopOne_spares:
  assumes "processes_owned w" and "\<forall>r'\<in>set (map snd es). r' < length (heap w) \<and> r' \<noteq> r"
  shows "untouched r w (fold stopOne es w)"
  using assms
proof (induction es arbitrary: w)
  case Nil
  show ?case by (simp add: untouched_def)
next
  case (Cons e es)
  from Cons.prems have 1: "untouched r w (stopOne e w)" by (intro stopOne_spares) simp_all
  from Cons.prems have po: "processes_owned (stopOne e w)"
    by (intro po_quiet [OF quiet_stopOne]) simp
  from Cons.prems have "\<forall>r'\<in>set (map snd es). r' < length (heap (stopOne e w)) \<and> r' \<noteq> r"
    by simp
  from Cons.IH [OF po this] have 2: "untouched r (stopOne e w) (fold stopOne (e # es) w)"
    by simp
  from untouched_trans [OF 1 2] show ?case by simp
qed

lemma call_spares_orphan:
  assumes "wf_world w" and "orphan r w" and "is_call e"
  shows "untouched r w (step e w)"
proof (cases e)
  case (Start i f c now)
  with assms(2) show ?thesis
    by (simp add: untouched_def orphan_def startStream_old startStream_old_proc)
next
  case (Stop i)
  show ?thesis
  proof (cases "map_of (activeStreams w) i")
    case None
    with Stop show ?thesis by (simp add: stopStream_refused untouched_def)
  next
    case (Some r')
    then have "r' \<in> set (map snd (activeStreams w))"
      by (metis map_of_SomeD set_zip_rightD zip_map_fst_snd)
    with assms(1,2) have "r' < length (heap w)" "r' \<noteq> r"
      by (auto simp: wf_world_def registry_ok_def orphan_def)
    with assms(1) Some Stop show ?thesis
      by (simp add: stopStream_spares wf_world_def)
  qed
next
  case StopAll
  from assms(1,2) have "\<forall>r'\<in>set (map snd (activeStreams w)). r' < length (heap w) \<and> r' \<noteq> r"
    by (auto simp: wf_world_def registry_ok_def orphan_def)
  with assms(1) StopAll show ?thesis
    by (simp add: stopAllStreams_def fold_stopOne_spares wf_world_def del: set_map)
qed (use assms(3) in simp_all)

section \<open>Process exit, stop and restart\<close>

lemma fold_clearTimeout_nth:
  "timers (fold clearTimeout ts w) ! t =
     (if t \<in> set ts \<and> t < length (timers w) then (timers w ! t)\<lparr>pending := False\<rparr>
      else timers w ! t)"
  by (induction ts arbitrary: w) (auto simp: clearTimeout_nth)

lemma onClose_exhausted:
  assumes "status (heap w ! cl_state (procs w ! p)) = Running" and "code \<noteq> Some 0"
    and "\<not> reconnectAttempts (heap w ! cl_state (procs w ! p)) < MAX_RECONNECT_ATTEMPTS"
  shows "onClose p code w = update_state (cl_state (procs w ! p)) (\<lambda>s. s\<lparr>status := Error\<rparr>) w"
  using assms by (simp add: onClose_def Let_def)

lemma onClose_retry:
  assumes "status (heap w ! cl_state (procs w ! p)) = Running" and "code \<noteq> Some 0"
    and "reconnectAttempts (heap w ! cl_state (procs w ! p)) < MAX_RECONNECT_ATTEMPTS"
  shows "onClose p code w =
     update_state (cl_state (procs w ! p)) (\<lambda>s. s\<lparr>reconnectTimer := Some (length (timers w))\<rparr>)
       (snd (setTimeout
          (Relaunch (cl_streamId (procs w ! p)) (cl_filePath (procs w ! p))
             (cl_config (procs w ! p)) (cl_state (procs w ! p)))
          (update_state (cl_state (procs w ! p))
             (\<lambda>s. s\<lparr>reconnectAttempts := reconnectAttempts s + 1, status := Reconnecting\<rparr>) w)))"
  using assms by (simp add: onClose_def Let_def split_def)

text \<open>
  Claim C3. A process of a stream in status \<open>Running\<close> exits with a code other than 0
  (\<open>None\<close> is the \<^verbatim>\<open>null\<close> of a process ended by a signal). If the attempt counter is
  at the maximum 10, the status becomes \<open>Error\<close>, no timer is created and no timer
  becomes pending. If the counter is below 10, it is incremented, the status becomes
  \<open>Reconnecting\<close>, and a new pending timer with the relaunch callback for this stream
  is created and stored in \<open>reconnectTimer\<close>.
\<close>

theorem exit_with_failure_retries_up_to_maximum:
  assumes "wf_world w" and "p < length (procs w)" and "\<not> exited (procs w ! p)"
    and "cl_state (procs w ! p) = r" and "r < length (heap w)"
    and "status (heap w ! r) = Running" and "code \<noteq> Some 0"
    and "w' = step (ProcClose p code) w"
  shows "(reconnectAttempts (heap w ! r) = 10 \<longrightarrow>
            status (heap w' ! r) = Error
            \<and> length (timers w') = length (timers w)
            \<and> (\<forall>t<length (timers w). pending (timers w' ! t) \<longrightarrow> pending (timers w ! t)))
       \<and> (reconnectAttempts (heap w ! r) < 10 \<longrightarrow>
            reconnectAttempts (heap w' ! r) = reconnectAttempts (heap w ! r) + 1
            \<and> status (heap w' ! r) = Reconnecting
            \<and> reconnectTimer (heap w' ! r) = Some (length (timers w))
            \<and> length (timers w') = Suc (length (timers w))
            \<and> timers w' ! length (timers w) =
                \<lparr>callback = Relaunch (cl_streamId (procs w ! p)) (cl_filePath (procs w ! p))
                              (cl_config (procs w ! p)) r,
                 pending = True\<rparr>)"
proof -
  let ?w0 = "w\<lparr>procs := (procs w)[p := (procs w ! p)\<lparr>exited := True\<rparr>]\<rparr>"
  let ?ts = "closeClears (procs w ! p)"
  have w': "w' = fold clearTimeout ?ts (onClose p code ?w0)"
    using assms(2,3,8) by (simp add: procClose_def)
  from assms(2,4) have cl: "cl_state (procs ?w0 ! p) = r"
    "cl_streamId (procs ?w0 ! p) = cl_streamId (procs w ! p)"
    "cl_filePath (procs ?w0 ! p) = cl_filePath (procs w ! p)"
    "cl_config (procs ?w0 ! p) = cl_config (procs w ! p)" by simp_all
  from assms(6) cl(1) have run0: "status (heap ?w0 ! cl_state (procs ?w0 ! p)) = Running"
    by simp
  from assms(1,2) have bound: "\<forall>t\<in>set ?ts. t < length (timers w)"
    by (simp add: wf_world_def listeners_bounded_def)
  have A: "status (heap w' ! r) = Error
            \<and> length (timers w') = length (timers w)
            \<and> (\<forall>t<length (timers w). pending (timers w' ! t) \<longrightarrow> pending (timers w ! t))"
    if "reconnectAttempts (heap w ! r) = 10"
  proof -
    from that cl(1)
    have "\<not> reconnectAttempts (heap ?w0 ! cl_state (procs ?w0 ! p)) < MAX_RECONNECT_ATTEMPTS"
      by (simp add: MAX_RECONNECT_ATTEMPTS_def)
    from onClose_exhausted [OF run0 assms(7) this] cl(1)
    have "w' = fold clearTimeout ?ts (update_state r (\<lambda>s. s\<lparr>status := Error\<rparr>) ?w0)"
      by (simp add: w')
    with assms(5) show ?thesis by (simp add: update_state_nth fold_clearTimeout_nth)
  qed
  have B: "reconnectAttempts (heap w' ! r) = reconnectAttempts (heap w ! r) + 1
            \<and> status (heap w' ! r) = Reconnecting
            \<and> reconnectTimer (heap w' ! r) = Some (length (timers w))
            \<and> length (timers w') = Suc (length (timers w))
            \<and> timers w' ! length (timers w) =
                \<lparr>callback = Relaunch (cl_streamId (procs w ! p)) (cl_filePath (procs w ! p))
                              (cl_config (procs w ! p)) r,
                 pending = True\<rparr>"
    if "reconnectAttempts (heap w ! r) < 10"
  proof -
    from that cl(1)
    have "reconnectAttempts (heap ?w0 ! cl_state (procs ?w0 ! p)) < MAX_RECONNECT_ATTEMPTS"
      by (simp add: MAX_RECONNECT_ATTEMPTS_def)
    note eq = onClose_retry [OF run0 assms(7) this, unfolded cl]
    from bound have "length (timers w) \<notin> set ?ts" by auto
    with assms(5) show ?thesis
      unfolding w' eq by (simp add: update_state_nth fold_clearTimeout_nth)
  qed
  from A B show ?thesis by blast
qed

subsection \<open>Signals reach stopped streams only\<close>

lemma forced_kills_stopped_alt:
  "forced_kills_stopped w \<longleftrightarrow>
     (\<forall>r. ForceKill r \<in> set (callbacks w) \<longrightarrow> r < length (heap w) \<and> status (heap w ! r) = Stopped)"
proof
  assume a: "forced_kills_stopped w"
  show "\<forall>r. ForceKill r \<in> set (callbacks w) \<longrightarrow> r < length (heap w) \<and> status (heap w ! r) = Stopped"
  proof (intro allI impI)
    fix r assume "ForceKill r \<in> set (callbacks w)"
    then obtain t where "t < length (timers w)" "callback (timers w ! t) = ForceKill r"
      by (auto simp: callbacks_def in_set_conv_nth)
    with a show "r < length (heap w) \<and> status (heap w ! r) = Stopped"
      by (auto simp: forced_kills_stopped_def split: callback.splits)
  qed
next
  assume a: "\<forall>r. ForceKill r \<in> set (callbacks w) \<longrightarrow> r < length (heap w) \<and> status (heap w ! r) = Stopped"
  have "r < length (heap w) \<and> status (heap w ! r) = Stopped"
    if "t < length (timers w)" "callback (timers w ! t) = ForceKill r" for t r
  proof -
    from that(1) have "callback (timers w ! t) \<in> set (callbacks w)"
      by (simp add: callbacks_def)
    with that(2) a show ?thesis by simp
  qed
  then show "forced_kills_stopped w"
    by (auto simp: forced_kills_stopped_def split: callback.splits)
qed

lemma unsignalled_alt:
  "unsignalled w \<longleftrightarrow>
     (\<forall>r p. r < length (heap w) \<longrightarrow> stoppable w r \<longrightarrow> process (heap w ! r) = Some p \<longrightarrow>
        \<not> killed (procs w ! p))"
  by (auto simp: unsignalled_def split: option.splits)

lemma callbacks_frames [simp]:
  "callbacks (update_state r f w) = callbacks w"
  "callbacks (clearTimeout t w) = callbacks w"
  "callbacks (snd (setTimeout cb w)) = callbacks w @ [cb]"
  "callbacks (kill p sg w) = callbacks w"
  "callbacks (addCloseListener p t w) = callbacks w"
  "callbacks (spawnFfmpeg i fp c r w) = callbacks w"
  "callbacks (w\<lparr>procs := ps\<rparr>) = callbacks w"
  by (simp_all add: callbacks_def clearTimeout_def map_update_same)

lemma callbacks_fold_clearTimeout [simp]: "callbacks (fold clearTimeout ts w) = callbacks w"
  by (induction ts arbitrary: w) simp_all

lemma callbacks_onData [simp]: "callbacks (onData p out w) = callbacks w"
  by (simp add: callbacks_def)

lemma callbacks_onClose:
  "ForceKill r \<in> set (callbacks (onClose p code w)) \<Longrightarrow> ForceKill r \<in> set (callbacks w)"
  by (auto simp: onClose_def Let_def split_def split: if_splits)

lemma callbacks_procClose:
  "ForceKill r \<in> set (callbacks (procClose p code w)) \<Longrightarrow> ForceKill r \<in> set (callbacks w)"
  using callbacks_onClose [of r p code "w\<lparr>procs := (procs w)[p := (procs w ! p)\<lparr>exited := True\<rparr>]\<rparr>"]
  by (auto simp: procClose_def split: if_splits)

lemma callbacks_runCallback [simp]: "callbacks (runCallback cb w) = callbacks w"
  by (cases cb) (simp_all split: option.splits)

lemma callbacks_timerFire [simp]: "callbacks (timerFire t w) = callbacks w"
  by (simp add: timerFire_def)

lemma callbacks_startStream [simp]: "callbacks (snd (startStream i f c now w)) = callbacks w"
  by (simp add: callbacks_def)

lemma callbacks_cancelReconnect [simp]: "callbacks (cancelReconnect r w) = callbacks w"
  by (simp add: cancelReconnect_def split: option.splits)

lemma callbacks_interrupt:
  "set (callbacks (interrupt r w)) \<subseteq> insert (ForceKill r) (set (callbacks w))"
  by (auto simp: interrupt_def split_def split: option.splits)

lemma callbacks_stopOne [simp]: "callbacks (stopOne e w) = callbacks w"
  by (simp add: stopOne_def Let_def clearReconnect_def forceKill_def split: option.splits)

lemma callbacks_fold_stopOne [simp]: "callbacks (fold stopOne es w) = callbacks w"
  by (induction es arbitrary: w) simp_all

lemma callbacks_stopStream:
  "ForceKill r \<in> set (callbacks (snd (stopStream i w))) \<Longrightarrow>
     ForceKill r \<in> set (callbacks w)
     \<or> (map_of (activeStreams w) i = Some r \<and> stoppable w r)"
  using callbacks_interrupt
  by (fastforce simp: stopStream_def stoppable_def split: option.splits if_splits)

lemma stopStream_stopped:
  "map_of (activeStreams w) i = Some r \<Longrightarrow> stoppable w r \<Longrightarrow> r < length (heap w) \<Longrightarrow>
     status (heap (snd (stopStream i w)) ! r) = Stopped"
  by (simp add: stopStream_applied cancelReconnect_nth update_state_nth)

lemma registered_valid:
  "wf_world w \<Longrightarrow> map_of (activeStreams w) i = Some r \<Longrightarrow> r < length (heap w)"
  by (metis map_of_SomeD set_zip_rightD zip_map_fst_snd wf_world_def registry_ok_def)

lemma callbacks_step:
  assumes "ForceKill r \<in> set (callbacks (step e w))"
  shows "ForceKill r \<in> set (callbacks w)
     \<or> (\<exists>i. e = Stop i \<and> map_of (activeStreams w) i = Some r \<and> stoppable w r)"
proof (cases e)
  case (Stop i)
  with assms callbacks_stopStream [of r i w] show ?thesis by auto
next
  case (ProcClose p code)
  with assms callbacks_procClose [of r p code w] show ?thesis by auto
next
  case (ProcData p out)
  with assms show ?thesis by (auto split: if_splits)
qed (use assms in \<open>simp_all add: stopAllStreams_def\<close>)

lemma fks_step:
  assumes "wf_world w" and "forced_kills_stopped w"
  shows "forced_kills_stopped (step e w)"
  unfolding forced_kills_stopped_alt
proof (intro allI impI)
  fix r assume "ForceKill r \<in> set (callbacks (step e w))"
  from callbacks_step [OF this]
  consider "ForceKill r \<in> set (callbacks w)"
    | i where "e = Stop i" "map_of (activeStreams w) i = Some r" "stoppable w r" by blast
  then show "r < length (heap (step e w)) \<and> status (heap (step e w) ! r) = Stopped"
  proof cases
    case 1
    with assms(2) have "r < length (heap w)" "status (heap w ! r) = Stopped"
      by (simp_all add: forced_kills_stopped_alt)
    with step_terminal(1,2) [of r w e] show ?thesis by (simp add: terminal_def)
  next
    case 2
    from registered_valid [OF assms(1) 2(2)] stopStream_stopped [OF 2(2,3)] 2(1)
    show ?thesis by simp
  qed
qed

lemma unsI:
  "(\<And>r p. r < length (heap w) \<Longrightarrow> stoppable w r \<Longrightarrow> process (heap w ! r) = Some p \<Longrightarrow>
      killed (procs w ! p) \<Longrightarrow> False) \<Longrightarrow> unsignalled w"
  unfolding unsignalled_alt by blast

lemma unsD:
  "unsignalled w \<Longrightarrow> r < length (heap w) \<Longrightarrow> stoppable w r \<Longrightarrow>
     process (heap w ! r) = Some p \<Longrightarrow> \<not> killed (procs w ! p)"
  unfolding unsignalled_alt by blast

lemma quiet_process:
  "quiet w w' \<Longrightarrow> r < length (heap w) \<Longrightarrow> process (heap w' ! r) = process (heap w ! r)"
proof -
  assume q: "quiet w w'" and r: "r < length (heap w)"
  then have h: "handles w' = handles w" by (simp add: quiet_def)
  then have "length (heap w') = length (heap w)" by (metis length_handles)
  with r have "handles w' ! r = process (heap w' ! r)" "handles w ! r = process (heap w ! r)"
    by (simp_all add: handles_def)
  with h show ?thesis by simp
qed

lemma onClose_status_change:
  "status (heap (onClose p code w) ! r) \<noteq> status (heap w ! r) \<Longrightarrow>
     status (heap w ! r) = Running
     \<and> status (heap (onClose p code w) ! r) \<in> {Reconnecting, Error, Completed}"
  by (auto simp: onClose_def Let_def split_def update_state_nth split: if_splits)

lemma procClose_stoppable: "stoppable (procClose p code w) r \<Longrightarrow> stoppable w r"
proof -
  let ?w0 = "w\<lparr>procs := (procs w)[p := (procs w ! p)\<lparr>exited := True\<rparr>]\<rparr>"
  assume a: "stoppable (procClose p code w) r"
  show ?thesis
  proof (cases "p < length (procs w) \<and> \<not> exited (procs w ! p)")
    case True
    then have h: "heap (procClose p code w) = heap (onClose p code ?w0)"
      by (simp add: procClose_def)
    show ?thesis
    proof (cases "status (heap (onClose p code ?w0) ! r) = status (heap ?w0 ! r)")
      case True
      with a h show ?thesis by (simp add: stoppable_def)
    next
      case False
      from onClose_status_change [OF this] show ?thesis by (simp add: stoppable_def)
    qed
  next
    case False
    with a show ?thesis by (auto simp: procClose_def)
  qed
qed

lemma procClose_killed: "killed (procs (procClose p code w) ! q) = killed (procs w ! q)"
  by (simp add: procClose_def nth_update_if)

lemma uns_procClose:
  assumes "unsignalled w"
  shows "unsignalled (procClose p code w)"
proof (rule unsI)
  fix r q
  assume r: "r < length (heap (procClose p code w))"
    and s: "stoppable (procClose p code w) r"
    and pr: "process (heap (procClose p code w) ! r) = Some q"
    and k: "killed (procs (procClose p code w) ! q)"
  from r have r': "r < length (heap w)" by simp
  from quiet_process [OF quiet_procClose r'] pr have "process (heap w ! r) = Some q" by simp
  from unsD [OF assms r' procClose_stoppable [OF s] this] k show False
    by (simp add: procClose_killed)
qed

lemma uns_onData:
  assumes "unsignalled w"
  shows "unsignalled (onData p out w)"
proof (rule unsI)
  fix r q
  assume r: "r < length (heap (onData p out w))" and s: "stoppable (onData p out w) r"
    and pr: "process (heap (onData p out w) ! r) = Some q"
    and k: "killed (procs (onData p out w) ! q)"
  from r have r': "r < length (heap w)" by simp
  from quiet_process [OF quiet_onData r'] pr have "process (heap w ! r) = Some q" by simp
  from unsD [OF assms r' _ this] s k show False by (simp add: stoppable_def)
qed

lemma uns_spawnFfmpeg:
  assumes "wf_world w" and "unsignalled w"
  shows "unsignalled (spawnFfmpeg i f c r0 w)"
proof (rule unsI)
  let ?w' = "spawnFfmpeg i f c r0 w"
  fix r q
  assume r: "r < length (heap ?w')" and s: "stoppable ?w' r"
    and pr: "process (heap ?w' ! r) = Some q" and k: "killed (procs ?w' ! q)"
  from r have r': "r < length (heap w)" by simp
  have new: "\<not> killed (procs ?w' ! length (procs w))"
    by (simp add: spawnFfmpeg_def Let_def)
  show False
  proof (cases "r = r0")
    case True
    with pr r' have "q = length (procs w)" by (simp add: spawnFfmpeg_nth)
    with new k show False by simp
  next
    case False
    with pr s have old: "process (heap w ! r) = Some q" "stoppable w r"
      by (simp_all add: spawnFfmpeg_nth stoppable_def)
    from assms(1) have "processes_owned w" by (simp add: wf_world_def)
    from owned_process [OF this r' old(1)] have "q < length (procs w)" by simp
    then have "procs ?w' ! q = procs w ! q"
      by (simp add: spawnFfmpeg_def Let_def nth_append)
    with unsD [OF assms(2) r' old(2,1)] k show False by simp
  qed
qed

text \<open>A signal to the process of a stream that is not stoppable any more.\<close>

lemma uns_signal:
  assumes "wf_world w" and "unsignalled w" and "r0 < length (heap w)"
    and "length (heap w') = length (heap w)"
    and "\<And>r. r \<noteq> r0 \<Longrightarrow> heap w' ! r = heap w ! r"
    and "\<not> stoppable w' r0"
    and "\<And>q. process (heap w ! r0) \<noteq> Some q \<Longrightarrow> killed (procs w' ! q) = killed (procs w ! q)"
  shows "unsignalled w'"
proof (rule unsI)
  fix r q
  assume r: "r < length (heap w')" and s: "stoppable w' r"
    and pr: "process (heap w' ! r) = Some q" and k: "killed (procs w' ! q)"
  from s assms(6) have ne: "r \<noteq> r0" by auto
  from r s pr assms(4) assms(5) [OF ne]
  have old: "r < length (heap w)" "stoppable w r" "process (heap w ! r) = Some q"
    by (simp_all add: stoppable_def)
  from assms(1) have po: "processes_owned w" by (simp add: wf_world_def)
  have "process (heap w ! r0) \<noteq> Some q"
  proof
    assume "process (heap w ! r0) = Some q"
    from owned_process [OF po assms(3) this] owned_process [OF po old(1,3)] ne
    show False by simp
  qed
  from assms(7) [OF this] unsD [OF assms(2) old] k show False by simp
qed

lemma kill_killed_other:
  "p0 \<noteq> Some q \<Longrightarrow>
     killed (procs (case p0 of None \<Rightarrow> w | Some p \<Rightarrow> kill p sg w) ! q) = killed (procs w ! q)"
  by (cases p0) (simp_all add: kill_other)

lemma uns_timerFire:
  assumes "wf_world w" and "forced_kills_stopped w" and "unsignalled w"
  shows "unsignalled (timerFire t w)"
proof (cases "t < length (timers w) \<and> pending (timers w ! t)")
  case False
  with assms(3) show ?thesis by (auto simp: timerFire_def)
next
  case True
  let ?w1 = "clearTimeout t w"
  from assms(1) have wf1: "wf_world ?w1" by (rule wf_quiet [OF quiet_clearTimeout])
  from assms(3) have u1: "unsignalled ?w1" by (simp add: unsignalled_alt stoppable_def)
  show ?thesis
  proof (cases "callback (timers w ! t)")
    case (Relaunch i f c r0)
    with True uns_spawnFfmpeg [OF wf1 u1] u1 show ?thesis by (simp add: timerFire_def)
  next
    case (ForceKill r0)
    from True have "callback (timers w ! t) \<in> set (callbacks w)" by (simp add: callbacks_def)
    with ForceKill assms(2) have r0: "r0 < length (heap w)" "status (heap w ! r0) = Stopped"
      by (simp_all add: forced_kills_stopped_alt)
    let ?w' = "case process (heap w ! r0) of None \<Rightarrow> ?w1 | Some p \<Rightarrow> kill p SIGKILL ?w1"
    have "unsignalled ?w'"
    proof (rule uns_signal [OF wf1 u1, of r0])
      show "r0 < length (heap ?w1)" using r0 by simp
      show "length (heap ?w') = length (heap ?w1)" by (simp split: option.splits)
      show "heap ?w' ! r = heap ?w1 ! r" for r by (simp split: option.splits)
      show "\<not> stoppable ?w' r0" using r0 by (simp add: stoppable_def split: option.splits)
      show "killed (procs ?w' ! q) = killed (procs ?w1 ! q)"
        if "process (heap ?w1 ! r0) \<noteq> Some q" for q
        using that kill_killed_other [of "process (heap w ! r0)" q ?w1 SIGKILL] by simp
    qed
    with True ForceKill show ?thesis by (simp add: timerFire_def)
  qed
qed

lemma uns_startStream:
  assumes "wf_world w" and "unsignalled w"
  shows "unsignalled (snd (startStream i f c now w))"
proof -
  let ?s = "\<lparr>process = None, status = Running, startedAt = now, reconnectAttempts = 0,
             reconnectTimer = None, stats = \<lparr>time = ''00:00:00'', stats_loopCount = 1\<rparr>,
             config = c\<rparr>"
  let ?w1 = "w\<lparr>heap := heap w @ [?s],
               activeStreams := AList.update i (length (heap w)) (activeStreams w)\<rparr>"
  have eq: "snd (startStream i f c now w) = spawnFfmpeg i f c (length (heap w)) ?w1"
    by (simp add: startStream_def Let_def)
  have "wf_world (snd (startStream i f c now w))" using assms(1) by (rule wf_startStream)
  show ?thesis
  proof (rule unsI)
    let ?w' = "snd (startStream i f c now w)"
    fix r q
    assume r: "r < length (heap ?w')" and s: "stoppable ?w' r"
      and pr: "process (heap ?w' ! r) = Some q" and k: "killed (procs ?w' ! q)"
    have new: "\<not> killed (procs ?w' ! length (procs w))"
      by (simp add: startStream_def spawnFfmpeg_def Let_def)
    show False
    proof (cases "r < length (heap w)")
      case True
      with pr s have old: "process (heap w ! r) = Some q" "stoppable w r"
        by (simp_all add: startStream_old stoppable_def)
      from assms(1) have "processes_owned w" by (simp add: wf_world_def)
      from owned_process [OF this True old(1)] have "q < length (procs w)" by simp
      then have "procs ?w' ! q = procs w ! q" by (rule startStream_old_proc)
      with unsD [OF assms(2) True old(2,1)] k show False by simp
    next
      case False
      with r have "r = length (heap w)" by simp
      with pr have "q = length (procs w)"
        by (simp add: startStream_def Let_def spawnFfmpeg_nth)
      with new k show False by simp
    qed
  qed
qed

lemma stopStream_killed_other:
  "map_of (activeStreams w) i = Some r0 \<Longrightarrow> process (heap w ! r0) \<noteq> Some q \<Longrightarrow>
     killed (procs (snd (stopStream i w)) ! q) = killed (procs w ! q)"
proof (cases "stoppable w r0")
  case False
  assume "map_of (activeStreams w) i = Some r0"
  with False show ?thesis by (simp add: stopStream_refused)
next
  case True
  assume m: "map_of (activeStreams w) i = Some r0" and n: "process (heap w ! r0) \<noteq> Some q"
  let ?w2 = "cancelReconnect r0 (update_state r0 (\<lambda>s. s\<lparr>status := Stopped\<rparr>) w)"
  have pr: "process (heap ?w2 ! r0) = process (heap w ! r0)"
    by (simp add: cancelReconnect_nth update_state_nth)
  have "procs (interrupt r0 ?w2) ! q = procs w ! q"
  proof (cases "process (heap w ! r0)")
    case None
    with pr show ?thesis by (simp add: interrupt_none)
  next
    case (Some p)
    with n have "q \<noteq> p" by auto
    from interrupt_other [OF _ this, of ?w2 r0] pr Some show ?thesis by simp
  qed
  with stopStream_applied [OF m True] show ?thesis by simp
qed

lemma uns_stopStream:
  assumes "wf_world w" and "unsignalled w"
  shows "unsignalled (snd (stopStream i w))"
proof (cases "map_of (activeStreams w) i")
  case None
  with assms(2) show ?thesis by (simp add: stopStream_refused)
next
  case (Some r0)
  show ?thesis
  proof (cases "stoppable w r0")
    case False
    with Some assms(2) show ?thesis by (simp add: stopStream_refused)
  next
    case True
    note r0 = registered_valid [OF assms(1) Some]
    show ?thesis
    proof (rule uns_signal [OF assms, of r0])
      show "r0 < length (heap w)" by (rule r0)
      show "length (heap (snd (stopStream i w))) = length (heap w)" by simp
      show "heap (snd (stopStream i w)) ! r = heap w ! r" if "r \<noteq> r0" for r
        using that Some by (simp add: stopStream_other)
      show "\<not> stoppable (snd (stopStream i w)) r0"
        using stopStream_stopped [OF Some True r0] by (simp add: stoppable_def)
      show "killed (procs (snd (stopStream i w)) ! q) = killed (procs w ! q)"
        if "process (heap w ! r0) \<noteq> Some q" for q
        using Some that by (rule stopStream_killed_other)
    qed
  qed
qed

lemma stopOne_killed_other:
  "process (heap w ! snd e) \<noteq> Some q \<Longrightarrow> killed (procs (stopOne e w) ! q) = killed (procs w ! q)"
  by (cases "process (heap w ! snd e)")
    (auto simp: stopOne_def Let_def forceKill_def kill_other)

lemma stopOne_stopped:
  "stoppable w (snd e) \<Longrightarrow> snd e < length (heap w) \<Longrightarrow> status (heap (stopOne e w) ! snd e) = Stopped"
  by (simp add: stopOne_def Let_def stoppable_def update_state_nth)

lemma uns_stopOne:
  assumes "wf_world w" and "unsignalled w" and "snd e < length (heap w)"
  shows "unsignalled (stopOne e w)"
proof (cases "stoppable w (snd e)")
  case False
  with assms(2) show ?thesis by (simp add: stopOne_refused)
next
  case True
  show ?thesis
  proof (rule uns_signal [OF assms(1,2), of "snd e"])
    show "snd e < length (heap w)" by (rule assms(3))
    show "length (heap (stopOne e w)) = length (heap w)" by simp
    show "heap (stopOne e w) ! r = heap w ! r" if "r \<noteq> snd e" for r
      using that by (simp add: stopOne_other)
    show "\<not> stoppable (stopOne e w) (snd e)"
      using stopOne_stopped [OF True assms(3)] by (simp add: stoppable_def)
    show "killed (procs (stopOne e w) ! q) = killed (procs w ! q)"
      if "process (heap w ! snd e) \<noteq> Some q" for q
      using that by (rule stopOne_killed_other)
  qed
qed

lemma uns_fold_stopOne:
  assumes "wf_world w" and "unsignalled w" and "\<forall>e\<in>set es. snd e < length (heap w)"
  shows "unsignalled (fold stopOne es w)"
  using assms
proof (induction es arbitrary: w)
  case Nil
  then show ?case by simp
next
  case (Cons e es)
  from Cons.prems have 1: "wf_world (stopOne e w)" by (intro wf_quiet [OF quiet_stopOne])
  from Cons.prems have 2: "unsignalled (stopOne e w)" by (intro uns_stopOne) simp_all
  from Cons.prems have 3: "\<forall>e'\<in>set es. snd e' < length (heap (stopOne e w))" by simp
  from Cons.IH [OF 1 2 3] show ?case by simp
qed

lemma uns_step:
  assumes "wf_world w" and "forced_kills_stopped w" and "unsignalled w"
  shows "unsignalled (step e w)"
proof (cases e)
  case (Start i f c now)
  with uns_startStream [OF assms(1,3)] show ?thesis by simp
next
  case (Stop i)
  with uns_stopStream [OF assms(1,3)] show ?thesis by simp
next
  case StopAll
  from assms(1) have "\<forall>e\<in>set (activeStreams w). snd e < length (heap w)"
    by (auto simp: wf_world_def registry_ok_def)
  from uns_fold_stopOne [OF assms(1,3) this] StopAll show ?thesis
    by (simp add: stopAllStreams_def)
next
  case (ProcData p out)
  with uns_onData [OF assms(3)] assms(3) show ?thesis by simp
next
  case (ProcClose p code)
  with uns_procClose [OF assms(3)] show ?thesis by simp
next
  case (TimerFire t)
  with uns_timerFire [OF assms] show ?thesis by simp
qed

lemma signals_ok_init: "signals_ok init_world"
  using wf_init
  by (simp add: signals_ok_def forced_kills_stopped_def unsignalled_def init_world_def)

lemma signals_ok_step: "signals_ok w \<Longrightarrow> signals_ok (step e w)"
  by (simp add: signals_ok_def wf_step fks_step uns_step)

lemma signals_ok_run: "signals_ok w \<Longrightarrow> signals_ok (run evs w)"
  unfolding run_def by (induction evs arbitrary: w) (simp_all add: signals_ok_step)

subsection \<open>The stop request and the restart\<close>

lemma interrupt_live:
  assumes "process (heap w ! r) = Some p" and "p < length (procs w)"
    and "\<not> exited (procs w ! p)" and "\<not> killed (procs w ! p)"
  shows "signals (procs (interrupt r w) ! p) = signals (procs w ! p) @ [SIGINT]"
    and "killed (procs (interrupt r w) ! p)"
    and "timers (interrupt r w) = timers w @ [\<lparr>callback = ForceKill r, pending = True\<rparr>]"
    and "closeClears (procs (interrupt r w) ! p) = closeClears (procs w ! p) @ [length (timers w)]"
  using assms by (simp_all add: interrupt_def split_def addCloseListener_def kill_def)

text \<open>
  Claim C5. In every world the supervisor can be in, \<open>stopStream\<close> returns false and
  leaves the world as it is when the identifier is not in the registry or the status
  is neither \<open>Running\<close> nor \<open>Reconnecting\<close>. Otherwise it returns true, the status is
  \<open>Stopped\<close>, the \<open>reconnectTimer\<close> field is empty and the timer it held is not
  pending; and the process of the stream, if it has not exited, receives \<^verbatim>\<open>SIGINT\<close>,
  with a pending timer for the forced kill.
\<close>

theorem stopStream_contract:
  assumes "signals_ok w" and "stopStream i w = (ok, w')"
  shows "(map_of (activeStreams w) i = None
          \<or> (map_of (activeStreams w) i = Some r
              \<and> status (heap w ! r) \<noteq> Running \<and> status (heap w ! r) \<noteq> Reconnecting)
          \<longrightarrow> \<not> ok \<and> w' = w)
       \<and> (map_of (activeStreams w) i = Some r
           \<and> (status (heap w ! r) = Running \<or> status (heap w ! r) = Reconnecting)
          \<longrightarrow> ok
            \<and> status (heap w' ! r) = Stopped
            \<and> reconnectTimer (heap w' ! r) = None
            \<and> (\<forall>t. reconnectTimer (heap w ! r) = Some t \<and> t < length (timers w)
                  \<longrightarrow> \<not> pending (timers w' ! t))
            \<and> (\<forall>p. process (heap w ! r) = Some p \<and> \<not> exited (procs w ! p)
                  \<longrightarrow> signals (procs w' ! p) = signals (procs w ! p) @ [SIGINT]
                    \<and> timers w' ! length (timers w) = \<lparr>callback = ForceKill r, pending = True\<rparr>))"
proof -
  from assms(1) have wf: "wf_world w" and uns: "unsignalled w" by (simp_all add: signals_ok_def)
  have refused: "\<not> ok \<and> w' = w"
    if "map_of (activeStreams w) i = None
          \<or> (map_of (activeStreams w) i = Some r
              \<and> status (heap w ! r) \<noteq> Running \<and> status (heap w ! r) \<noteq> Reconnecting)"
    using that assms(2) by (auto simp: stopStream_def)
  have applied: "ok
            \<and> status (heap w' ! r) = Stopped
            \<and> reconnectTimer (heap w' ! r) = None
            \<and> (\<forall>t. reconnectTimer (heap w ! r) = Some t \<and> t < length (timers w)
                  \<longrightarrow> \<not> pending (timers w' ! t))
            \<and> (\<forall>p. process (heap w ! r) = Some p \<and> \<not> exited (procs w ! p)
                  \<longrightarrow> signals (procs w' ! p) = signals (procs w ! p) @ [SIGINT]
                    \<and> timers w' ! length (timers w) = \<lparr>callback = ForceKill r, pending = True\<rparr>)"
    if m: "map_of (activeStreams w) i = Some r"
      and st: "status (heap w ! r) = Running \<or> status (heap w ! r) = Reconnecting"
  proof -
    let ?w1 = "update_state r (\<lambda>s. s\<lparr>status := Stopped\<rparr>) w"
    let ?w2 = "cancelReconnect r ?w1"
    note len = registered_valid [OF wf m]
    from st have sp: "stoppable w r" by (simp add: stoppable_def)
    from stopStream_applied [OF m sp] assms(2)
    have ok: "ok" and w': "w' = interrupt r ?w2" by simp_all
    from len have s: "status (heap w' ! r) = Stopped" "reconnectTimer (heap w' ! r) = None"
      unfolding w' by (auto simp: cancelReconnect_nth update_state_nth)
    have t: "\<not> pending (timers w' ! t)"
      if "reconnectTimer (heap w ! r) = Some t" "t < length (timers w)" for t
    proof -
      from that(1) len have "reconnectTimer (heap ?w1 ! r) = Some t"
        by (simp add: update_state_nth)
      then have "?w2 = update_state r (\<lambda>s. s\<lparr>reconnectTimer := None\<rparr>) (clearTimeout t ?w1)"
        by (simp add: cancelReconnect_def)
      with that(2) have "cancelled t ?w2" by (simp add: cancelled_def clearTimeout_nth)
      then have "cancelled t w'" unfolding w' by (rule cancelled_interrupt)
      then show ?thesis by (simp add: cancelled_def)
    qed
    have p: "signals (procs w' ! p) = signals (procs w ! p) @ [SIGINT]
             \<and> timers w' ! length (timers w) = \<lparr>callback = ForceKill r, pending = True\<rparr>"
      if pr: "process (heap w ! r) = Some p" and live: "\<not> exited (procs w ! p)" for p
    proof -
      from wf have "processes_owned w" by (simp add: wf_world_def)
      from owned_process [OF this len pr] have pl: "p < length (procs w)" by simp
      from unsD [OF uns len sp pr] have nk: "\<not> killed (procs w ! p)" .
      from pr len have 1: "process (heap ?w2 ! r) = Some p"
        by (simp add: cancelReconnect_nth update_state_nth)
      from pl live nk have 2: "p < length (procs ?w2)" "\<not> exited (procs ?w2 ! p)"
        "\<not> killed (procs ?w2 ! p)" by simp_all
      from interrupt_live(1,3) [OF 1 2] show ?thesis
        unfolding w' by (simp add: nth_append)
    qed
    from ok s t p show ?thesis by blast
  qed
  from refused applied show ?thesis by blast
qed

text \<open>
  Claim C10. \<open>startStream\<close> with an identifier that the registry already binds (to the
  stream state \<open>r\<close>) binds it to a fresh state: status \<open>Running\<close>, no attempts, stats
  reset. The old state, the processes and the timers are as before: nothing is stopped
  and nothing is cancelled. From then on, whatever happens (\<open>evs\<close>), the registry does
  not hold \<open>r\<close>, and no call of an exported operation changes \<open>r\<close> or a process
  spawned for it.
\<close>

theorem restart_replaces_and_orphans:
  assumes "wf_world w" and "map_of (activeStreams w) i = Some r"
    and "w' = snd (startStream i f c now w)"
  shows "map_of (activeStreams w') i = Some (length (heap w)) \<and> length (heap w) \<noteq> r
    \<and> heap w' ! length (heap w) =
        \<lparr>process = Some (length (procs w)), status = Running, startedAt = now,
         reconnectAttempts = 0, reconnectTimer = None,
         stats = \<lparr>time = ''00:00:00'', stats_loopCount = 1\<rparr>, config = c\<rparr>
    \<and> heap w' ! r = heap w ! r
    \<and> take (length (procs w)) (procs w') = procs w
    \<and> timers w' = timers w
    \<and> orphan r (run evs w')
    \<and> (is_call e \<longrightarrow> untouched r (run evs w') (step e (run evs w')))"
proof -
  let ?n = "length (heap w)"
  from assms(2) have "r \<in> set (map snd (activeStreams w))"
    by (metis map_of_SomeD set_zip_rightD zip_map_fst_snd)
  with assms(1) have r: "r < ?n" by (auto simp: wf_world_def registry_ok_def)
  have reg: "map_of (activeStreams w') i = Some ?n"
    by (simp add: assms(3) update_conv')
  have new: "heap w' ! ?n =
        \<lparr>process = Some (length (procs w)), status = Running, startedAt = now,
         reconnectAttempts = 0, reconnectTimer = None,
         stats = \<lparr>time = ''00:00:00'', stats_loopCount = 1\<rparr>, config = c\<rparr>"
    by (simp add: assms(3) startStream_def Let_def spawnFfmpeg_nth)
  from r have old: "heap w' ! r = heap w ! r" by (simp add: assms(3) startStream_old)
  have pr: "take (length (procs w)) (procs w') = procs w"
    by (simp add: assms(3) startStream_def Let_def spawnFfmpeg_def)
  have tm: "timers w' = timers w" by (simp add: assms(3))
  from assms(1) have "distinct (map snd (activeStreams w))"
    by (simp add: wf_world_def registry_ok_def)
  have wf': "wf_world w'" unfolding assms(3) using assms(1) by (rule wf_startStream)
  then have "distinct (map fst (activeStreams w'))" "distinct (map snd (activeStreams w'))"
    by (simp_all add: wf_world_def registry_ok_def)
  have "r \<notin> set (map snd (activeStreams w'))"
  proof
    assume "r \<in> set (map snd (activeStreams w'))"
    then obtain j where j: "(j, r) \<in> set (activeStreams w')" by auto
    with \<open>distinct (map fst (activeStreams w'))\<close> have "map_of (activeStreams w') j = Some r"
      by simp
    then have "((map_of (activeStreams w))(i \<mapsto> ?n)) j = Some r"
      by (simp add: assms(3) update_conv')
    with r have ji: "j \<noteq> i" and "map_of (activeStreams w) j = Some r"
      by (auto split: if_splits)
    with assms(1,2) show False
      by (metis (no_types, lifting) wf_world_def registry_ok_def map_of_eq_Some_iff
          distinct_map inj_on_def map_of_SomeD snd_conv fst_conv)
  qed
  with r have o: "orphan r w'" by (simp add: orphan_def assms(3))
  then have orun: "orphan r (run evs w')" by (rule orphan_run)
  have "untouched r (run evs w') (step e (run evs w'))" if "is_call e"
    using wf_run [OF wf'] orun that by (rule call_spares_orphan)
  with reg r new old pr tm orun show ?thesis by simp
qed

lemma wf_w_running: "wf_world w_running"
  unfolding w_running_def by (rule wf_run [OF wf_init])

lemma wf_w_last_attempt: "wf_world w_last_attempt"
  unfolding w_last_attempt_def by (rule wf_quiet [OF quiet_update_state wf_w_running]) simp

lemma w_last_attempt_facts:
  "0 < length (procs w_last_attempt)" "\<not> exited (procs w_last_attempt ! 0)"
  "cl_state (procs w_last_attempt ! 0) = 0" "0 < length (heap w_last_attempt)"
  "status (heap w_last_attempt ! 0) = Running"
  "reconnectAttempts (heap w_last_attempt ! 0) = 10"
  "length (timers w_last_attempt) = 0"
  by (simp_all add: w_last_attempt_def w_running_eq update_state_def)

theorem exit_with_failure_retries_up_to_maximum_witness:
  "wf_world w_last_attempt \<and> 0 < length (procs w_last_attempt)
   \<and> \<not> exited (procs w_last_attempt ! 0) \<and> cl_state (procs w_last_attempt ! 0) = 0
   \<and> 0 < length (heap w_last_attempt) \<and> status (heap w_last_attempt ! 0) = Running
   \<and> reconnectAttempts (heap w_last_attempt ! 0) = 10
   \<and> status (heap (step (ProcClose 0 (Some 1)) w_last_attempt) ! 0) = Error
   \<and> length (timers (step (ProcClose 0 (Some 1)) w_last_attempt)) = 0
   \<and> wf_world w_running \<and> 0 < length (procs w_running) \<and> \<not> exited (procs w_running ! 0)
   \<and> cl_state (procs w_running ! 0) = 0 \<and> 0 < length (heap w_running)
   \<and> status (heap w_running ! 0) = Running \<and> reconnectAttempts (heap w_running ! 0) < 10
   \<and> status (heap (step (ProcClose 0 None) w_running) ! 0) = Reconnecting
   \<and> reconnectAttempts (heap (step (ProcClose 0 None) w_running) ! 0) = 1
   \<and> pending (timers (step (ProcClose 0 None) w_running) ! 0)"
proof -
  note a = w_last_attempt_facts
  have ne: "Some (1::int) \<noteq> Some 0" "(None :: int option) \<noteq> Some 0" by simp_all
  have b: "0 < length (procs w_running)" "\<not> exited (procs w_running ! 0)"
    "cl_state (procs w_running ! 0) = 0" "0 < length (heap w_running)"
    "status (heap w_running ! 0) = Running"
    and c: "reconnectAttempts (heap w_running ! 0) = 0" "length (timers w_running) = 0"
    by (simp_all add: w_running_eq)
  from exit_with_failure_retries_up_to_maximum
    [OF wf_w_last_attempt a(1,2,3,4,5) ne(1) refl]
    exit_with_failure_retries_up_to_maximum [OF wf_w_running b ne(2) refl]
    a b c wf_w_last_attempt wf_w_running
  show ?thesis by simp
qed

lemma signals_ok_w_running: "signals_ok w_running"
  unfolding w_running_def by (rule signals_ok_run [OF signals_ok_init])

lemma signals_ok_w_reconnecting: "signals_ok w_reconnecting"
  unfolding w_reconnecting_def by (rule signals_ok_run [OF signals_ok_w_running])

lemma signals_ok_w_stopped: "signals_ok w_stopped"
  unfolding w_stopped_def by (rule signals_ok_run [OF signals_ok_w_reconnecting])

theorem stopStream_contract_witness:
  "signals_ok init_world \<and> map_of (activeStreams init_world) ''s1'' = None
   \<and> stopStream ''s1'' init_world = (False, init_world)
   \<and> signals_ok w_stopped \<and> map_of (activeStreams w_stopped) ''s1'' = Some 0
   \<and> status (heap w_stopped ! 0) = Stopped
   \<and> stopStream ''s1'' w_stopped = (False, w_stopped)
   \<and> signals_ok w_running \<and> map_of (activeStreams w_running) ''s1'' = Some 0
   \<and> status (heap w_running ! 0) = Running \<and> process (heap w_running ! 0) = Some 0
   \<and> \<not> exited (procs w_running ! 0)
   \<and> fst (stopStream ''s1'' w_running)
   \<and> status (heap (snd (stopStream ''s1'' w_running)) ! 0) = Stopped
   \<and> signals (procs (snd (stopStream ''s1'' w_running)) ! 0) = [SIGINT]
   \<and> timers (snd (stopStream ''s1'' w_running)) ! 0 = \<lparr>callback = ForceKill 0, pending = True\<rparr>
   \<and> signals_ok w_reconnecting \<and> map_of (activeStreams w_reconnecting) ''s1'' = Some 0
   \<and> status (heap w_reconnecting ! 0) = Reconnecting
   \<and> reconnectTimer (heap w_reconnecting ! 0) = Some 0 \<and> 0 < length (timers w_reconnecting)
   \<and> fst (stopStream ''s1'' w_reconnecting)
   \<and> \<not> pending (timers (snd (stopStream ''s1'' w_reconnecting)) ! 0)"
proof -
  have a: "map_of (activeStreams init_world) ''s1'' = None" by (simp add: init_world_def)
  have b: "map_of (activeStreams w_stopped) ''s1'' = Some 0"
    "status (heap w_stopped ! 0) = Stopped"
    by (simp_all add: w_stopped_eq)
  have c: "map_of (activeStreams w_running) ''s1'' = Some 0"
    "status (heap w_running ! 0) = Running" "process (heap w_running ! 0) = Some 0"
    "\<not> exited (procs w_running ! 0)"
    "signals (procs w_running ! 0) = []" "length (timers w_running) = 0"
    by (simp_all add: w_running_eq)
  have d: "map_of (activeStreams w_reconnecting) ''s1'' = Some 0"
    "status (heap w_reconnecting ! 0) = Reconnecting"
    "reconnectTimer (heap w_reconnecting ! 0) = Some 0" "0 < length (timers w_reconnecting)"
    by (simp_all add: w_reconnecting_eq)
  have p: "stopStream i w = (fst (stopStream i w), snd (stopStream i w))" for i w by simp
  from stopStream_contract [where i = "''s1''" and w = init_world and r = 0,
      OF signals_ok_init p] a
  have "\<not> fst (stopStream ''s1'' init_world) \<and> snd (stopStream ''s1'' init_world) = init_world"
    by blast
  then have 1: "stopStream ''s1'' init_world = (False, init_world)"
    by (simp add: prod_eq_iff)
  from stopStream_contract [where i = "''s1''" and w = w_stopped and r = 0,
      OF signals_ok_w_stopped p] b
  have "\<not> fst (stopStream ''s1'' w_stopped) \<and> snd (stopStream ''s1'' w_stopped) = w_stopped"
    by simp
  then have 2: "stopStream ''s1'' w_stopped = (False, w_stopped)"
    by (simp add: prod_eq_iff)
  from stopStream_contract [where i = "''s1''" and w = w_running and r = 0,
      OF signals_ok_w_running p] c
  have 3: "fst (stopStream ''s1'' w_running)"
    "status (heap (snd (stopStream ''s1'' w_running)) ! 0) = Stopped"
    "signals (procs (snd (stopStream ''s1'' w_running)) ! 0) = [SIGINT]"
    "timers (snd (stopStream ''s1'' w_running)) ! 0 = \<lparr>callback = ForceKill 0, pending = True\<rparr>"
    by simp_all
  from stopStream_contract [where i = "''s1''" and w = w_reconnecting and r = 0,
      OF signals_ok_w_reconnecting p] d
  have 4: "fst (stopStream ''s1'' w_reconnecting)"
    "\<not> pending (timers (snd (stopStream ''s1'' w_reconnecting)) ! 0)"
    by simp_all
  from a b c d 1 2 3 4 signals_ok_init signals_ok_w_stopped signals_ok_w_running
    signals_ok_w_reconnecting
  show ?thesis by simp
qed

theorem restart_replaces_and_orphans_witness:
  "wf_world w_running \<and> map_of (activeStreams w_running) ''s1'' = Some 0
   \<and> map_of (activeStreams w_restarted) ''s1'' = Some 1
   \<and> status (heap w_restarted ! 1) = Running
   \<and> heap w_restarted ! 0 = heap w_running ! 0
   \<and> take 1 (procs w_restarted) = procs w_running
   \<and> orphan 0 (run [Stop ''s1'', StopAll] w_restarted)
   \<and> untouched 0 w_restarted (step (Stop ''s1'') w_restarted)
   \<and> status (heap (step (Stop ''s1'') w_restarted) ! 0) = Running
   \<and> signals (procs (step (Stop ''s1'') w_restarted) ! 0) = []"
proof -
  have a: "map_of (activeStreams w_running) ''s1'' = Some 0"
    "length (heap w_running) = 1" "length (procs w_running) = 1"
    "status (heap w_running ! 0) = Running" "signals (procs w_running ! 0) = []"
    "cl_state (procs w_running ! 0) = 0"
    by (simp_all add: w_running_eq)
  note t = restart_replaces_and_orphans [OF wf_w_running a(1) w_restarted_def]
  from t [of "[]" "Stop ''s1''"]
  have u: "untouched 0 w_restarted (step (Stop ''s1'') w_restarted)"
    by (simp add: run_def)
  from t [of "[]" "Stop ''s1''"] a
  have old: "heap w_restarted ! 0 = heap w_running ! 0"
    "take 1 (procs w_restarted) = procs w_running"
    "map_of (activeStreams w_restarted) ''s1'' = Some 1"
    "status (heap w_restarted ! 1) = Running"
    by simp_all
  have "take 1 (procs w_restarted) ! 0 = procs w_restarted ! 0" by simp
  with old(2) have p0: "procs w_restarted ! 0 = procs w_running ! 0" by simp
  have len: "0 < length (procs w_restarted)"
    by (simp add: w_restarted_def a)
  from u old(1) p0 a len
  have "status (heap (step (Stop ''s1'') w_restarted) ! 0) = Running"
    "signals (procs (step (Stop ''s1'') w_restarted) ! 0) = []"
    by (simp_all add: untouched_def)
  with t [of "[Stop ''s1'', StopAll]" "Stop ''s1''"] u old wf_w_running a(1)
  show ?thesis by simp
qed

section \<open>A call of the argument builder\<close>

lemma push_frame [simp]:
  "supervisor (push a xs s) = supervisor s"
  "objs (push a xs s) = objs s"
  "length (arrays (push a xs s)) = length (arrays s)"
  by (simp_all add: push_def)

lemma push_Nil [simp]: "push a [] s = s"
  by (simp add: push_def)

lemma push_push [simp]: "push a ys (push a xs s) = push a (xs @ ys) s"
  by (cases "a < length (arrays s)") (simp_all add: push_def list_update_beyond)

lemma pushLoop_eq: "pushLoop args cref s = push args (loopArgs (objs s ! cref)) s"
  by (simp add: pushLoop_def loopArgs_def Let_def)

lemma pushTrimStart_eq: "pushTrimStart args cref s = push args (trimStartArgs (objs s ! cref)) s"
  by (simp add: pushTrimStart_def trimStartArgs_def Let_def)

lemma pushTrimDuration_eq:
  "pushTrimDuration args cref s = push args (trimDurationArgs (objs s ! cref)) s"
  by (auto simp: pushTrimDuration_def trimDurationArgs_def isLooping_def Let_def)

lemma pushScale_eq: "pushScale filters cref s = push filters (scaleFilter (objs s ! cref)) s"
  by (simp add: pushScale_def scaleFilter_def Let_def split: option.splits)

lemma pushSetdar_eq: "pushSetdar filters cref s = push filters (setdarFilter (objs s ! cref)) s"
  by (simp add: pushSetdar_def setdarFilter_def Let_def split: option.splits)

lemma pushFrameRate_eq: "pushFrameRate args cref s = push args (frameRateArgs (objs s ! cref)) s"
  by (simp add: pushFrameRate_def frameRateArgs_def split: option.splits frame_rate.splits)

lemma pushBitrate_eq: "pushBitrate args cref s = push args (bitrateArgs (objs s ! cref)) s"
  by (simp add: pushBitrate_def pushDefaultBitrate_def bitrateArgs_def
      split: option.splits bit_rate.splits)

lemma pushDuration_eq: "pushDuration args cref s = push args (durationArgs (objs s ! cref)) s"
  by (simp add: pushDuration_def durationArgs_def Let_def)

lemma pushDest_eq: "pushDest args cref s = push args [rtmpDest (objs s ! cref)] s"
  by (simp add: pushDest_def rtmpDest_def Let_def)

lemmas push_eqs = pushLoop_eq pushTrimStart_eq pushTrimDuration_eq pushScale_eq pushSetdar_eq
  pushFrameRate_eq pushBitrate_eq pushDuration_eq pushDest_eq

lemma push_fresh:
  "push (length A) xs (s\<lparr>arrays := A @ X # B\<rparr>) = s\<lparr>arrays := A @ (X @ xs) # B\<rparr>"
  by (simp add: push_def list_update_append nth_append)

lemma push_fresh2:
  "push (Suc (length A)) xs (s\<lparr>arrays := A @ X # Y # B\<rparr>) = s\<lparr>arrays := A @ X # (Y @ xs) # B\<rparr>"
  by (simp add: push_def list_update_append nth_append)

text \<open>The call computes \<open>buildFfmpegArgs\<close>, and allocates \<^verbatim>\<open>args\<close> and \<^verbatim>\<open>filters\<close>.\<close>

lemma buildFfmpegArgs_call_eq:
  "buildFfmpegArgs_call filePath cref s =
     (buildFfmpegArgs filePath (objs s ! cref),
      s\<lparr>arrays := arrays s @ [buildFfmpegArgs filePath (objs s ! cref),
                               scaleFilter (objs s ! cref) @ setdarFilter (objs s ! cref)]\<rparr>)"
proof -
  let ?c = "objs s ! cref"
  let ?n = "length (arrays s)"
  let ?pre = "[''-re''] @ loopArgs ?c @ trimStartArgs ?c @ trimDurationArgs ?c
     @ [''-i'', filePath]
     @ [''-c:v'', ''libx264'', ''-preset'', ''veryfast'', ''-tune'', ''zerolatency'']"
  let ?F = "scaleFilter ?c @ setdarFilter ?c"
  let ?s1 = "s\<lparr>arrays := arrays s @ [?pre]\<rparr>"
  let ?s2 = "s\<lparr>arrays := arrays s @ [?pre, ?F]\<rparr>"
  have 1: "push ?n [''-tune'', ''zerolatency''] (push ?n [''-preset'', ''veryfast'']
        (push ?n [''-c:v'', ''libx264''] (push ?n [''-i'', filePath]
          (pushTrimDuration ?n cref (pushTrimStart ?n cref (pushLoop ?n cref
            (push ?n [''-re''] (s\<lparr>arrays := arrays s @ [[]]\<rparr>)))))))) = ?s1"
    by (simp add: push_eqs push_fresh)
  have 2: "pushSetdar (Suc ?n) cref (pushScale (Suc ?n) cref (?s1\<lparr>arrays := arrays ?s1 @ [[]]\<rparr>))
       = ?s2"
    by (simp add: push_eqs push_fresh2)
  have 3: "pushFilters ?n (Suc ?n) ?s2 = push ?n (filterArgs ?c) ?s2"
    by (simp add: pushFilters_def filterArgs_def Let_def nth_append)
  have 5: "pushDest ?n cref (push ?n [''-f'', ''flv''] (pushDuration ?n cref
        (push ?n [''-ar'', ''44100''] (push ?n [''-b:a'', ''128k''] (push ?n [''-c:a'', ''aac'']
          (pushBitrate ?n cref (pushFrameRate ?n cref (pushFilters ?n (Suc ?n) ?s2))))))))
       = s\<lparr>arrays := arrays s @ [buildFfmpegArgs filePath ?c, ?F]\<rparr>"
    unfolding 3 by (simp add: push_eqs push_fresh buildFfmpegArgs_def)
  show ?thesis
    unfolding buildFfmpegArgs_call_def newArray_def Let_def split_def fst_conv snd_conv 1
    using 2 5 by (simp add: nth_append)
qed

lemma buildFfmpegArgs_cfg_loop3:
  "buildFfmpegArgs ''clip.mp4'' cfg_loop3 =
     [''-re'', ''-stream_loop'', ''2'', ''-ss'', ''10'', ''-i'', ''clip.mp4'',
      ''-c:v'', ''libx264'', ''-preset'', ''veryfast'', ''-tune'', ''zerolatency'',
      ''-vf'', ''scale=1280:720,setdar=16/9'', ''-r'', ''30'',
      ''-b:v'', ''2500k'', ''-maxrate'', ''2500k'', ''-bufsize'', ''5000k'',
      ''-c:a'', ''aac'', ''-b:a'', ''128k'', ''-ar'', ''44100'',
      ''-t'', ''120'', ''-f'', ''flv'', ''rtmp://x/live/key'']"
  by (simp add: buildFfmpegArgs_def cfg_loop3_def loopArgs_def trimStartArgs_def
      trimDurationArgs_def isLooping_def filterArgs_def scaleFilter_def setdarFilter_def
      resMap_def ratioMap_def frameRateArgs_def bitrateArgs_def durationArgs_def rtmpDest_def
      truthy_bool_def truthy_num_def truthy_str_def gt_num_def strip_trailing_slash_def
      String_def string_of_nat.simps digit_char_def)

text \<open>
  Claim C9. A call of \<open>buildFfmpegArgs\<close> returns the list that the function
  \<open>buildFfmpegArgs\<close> of the file path and the fields of the configuration gives: calls
  with the same file path and equal configurations return the same list, in whichever
  states they are made, and so does a second call after the first. The call leaves the
  supervisor's world (the registry, the stream states, the processes, the timers), the
  configuration objects and every array that existed before as they were; all it adds
  is its two local arrays.
\<close>

theorem buildFfmpegArgs_deterministic_and_pure:
  "fst (buildFfmpegArgs_call filePath cref s) = buildFfmpegArgs filePath (objs s ! cref)
   \<and> (objs s2 ! cref2 = objs s ! cref \<longrightarrow>
        fst (buildFfmpegArgs_call filePath cref2 s2) = fst (buildFfmpegArgs_call filePath cref s))
   \<and> fst (buildFfmpegArgs_call filePath cref (snd (buildFfmpegArgs_call filePath cref s)))
       = fst (buildFfmpegArgs_call filePath cref s)
   \<and> supervisor (snd (buildFfmpegArgs_call filePath cref s)) = supervisor s
   \<and> objs (snd (buildFfmpegArgs_call filePath cref s)) = objs s
   \<and> take (length (arrays s)) (arrays (snd (buildFfmpegArgs_call filePath cref s))) = arrays s"
  by (simp add: buildFfmpegArgs_call_eq)

theorem buildFfmpegArgs_deterministic_and_pure_witness:
  "objs ps_two ! 1 = objs ps_one ! 0
   \<and> fst (buildFfmpegArgs_call ''clip.mp4'' 1 ps_two) = fst (buildFfmpegArgs_call ''clip.mp4'' 0 ps_one)
   \<and> fst (buildFfmpegArgs_call ''clip.mp4'' 0 ps_one) = buildFfmpegArgs ''clip.mp4'' cfg_loop3
   \<and> supervisor (snd (buildFfmpegArgs_call ''clip.mp4'' 1 ps_two)) = init_world
   \<and> objs (snd (buildFfmpegArgs_call ''clip.mp4'' 1 ps_two)) = [cfg_nokey, cfg_loop3]
   \<and> take 1 (arrays (snd (buildFfmpegArgs_call ''clip.mp4'' 1 ps_two))) = [[''x'']]"
proof -
  have h: "objs ps_two ! 1 = objs ps_one ! 0" "objs ps_one ! 0 = cfg_loop3"
    "supervisor ps_two = init_world" "objs ps_two = [cfg_nokey, cfg_loop3]"
    "arrays ps_two = [[''x'']]"
    by (simp_all add: ps_one_def ps_two_def)
  from buildFfmpegArgs_deterministic_and_pure [of "''clip.mp4''" 0 ps_one ps_two 1]
    buildFfmpegArgs_deterministic_and_pure [of "''clip.mp4''" 1 ps_two ps_one 0] h
  show ?thesis by simp
qed

end
